theory Spec2Isabelle
  imports Complex_Main "HOL-Library.Multiset"
begin

section \<open>Taxonomy qna.yaml parsing: a shallow embedding\<close>

text \<open>
  The development embeds \<^verbatim>\<open>instructlab/schema/__init__.py\<close> and
  \<^verbatim>\<open>instructlab/schema/taxonomy.py\<close>. Python objects are values, mutation is
  explicit state passing, every exception is a value of \<open>exn\<close>, and what the code
  prints, logs, runs or reads is recorded as a list of events.

  A Python string is a sequence of code points. The names of directory entries and
  the argument of \<^verbatim>\<open>int\<close> are lists of code points; the text the module reads,
  prints and logs is modelled as \<open>string\<close>, the strings whose code points are below
  256.
\<close>

subsection \<open>Exceptions and results\<close>

datatype exn =
    TypeError
  | ValueError
  | OverflowError
  | IndexError
  | KeyError
  | FileNotFoundError
  | SubprocessError
  | OSError
  | UnicodeDecodeError
  | YAMLError
  | OtherException string
  | NoSuchResource string
  | TaxonomyReadingException "exn option"

text \<open>
  \<open>NoSuchResource ref\<close> carries the \<^verbatim>\<open>ref\<close> attribute;
  \<open>TaxonomyReadingException\<close> carries its cause (\<^verbatim>\<open>raise ... from e\<close>), if any.
\<close>

datatype 'a result = Return 'a | Raise exn

subsection \<open>Python built-ins on strings and integers\<close>

text \<open>The code points of a text; a code point is an integer.\<close>

definition ustr :: "string \<Rightarrow> int list" where
  "ustr s = map of_char s"

text \<open>
  The character tables are those of the Unicode character database 14.0.0, which
  CPython 3.11 carries. A decimal digit belongs to a run of ten consecutive code
  points with the values 0 to 9; \<open>decimal_zeros\<close> lists the zero of each run
  (\<^verbatim>\<open>unicodedata.decimal\<close>).
\<close>

definition decimal_zeros :: "int list" where
  "decimal_zeros =
     [0x30,
       0x660, 0x6F0, 0x7C0, 0x966, 0x9E6, 0xA66, 0xAE6, 0xB66, 0xBE6, 0xC66, 0xCE6,
       0xD66, 0xDE6, 0xE50, 0xED0, 0xF20, 0x1040, 0x1090, 0x17E0, 0x1810, 0x1946,
       0x19D0, 0x1A80, 0x1A90, 0x1B50, 0x1BB0, 0x1C40, 0x1C50, 0xA620, 0xA8D0, 0xA900,
       0xA9D0, 0xA9F0, 0xAA50, 0xABF0, 0xFF10, 0x104A0, 0x10D30, 0x11066, 0x110F0,
       0x11136, 0x111D0, 0x112F0, 0x11450, 0x114D0, 0x11650, 0x116C0, 0x11730, 0x118E0,
       0x11950, 0x11C50, 0x11D50, 0x11DA0, 0x16A60, 0x16AC0, 0x16B50, 0x1D7CE, 0x1D7D8,
       0x1D7E2, 0x1D7EC, 0x1D7F6, 0x1E140, 0x1E2F0, 0x1E950, 0x1FBF0]"

definition decimal_value :: "int \<Rightarrow> int option" where
  "decimal_value c =
     (case filter (\<lambda>z. z \<le> c \<and> c < z + 10) decimal_zeros of
        [] \<Rightarrow> None
      | z # zs \<Rightarrow> Some (c - z))"

text \<open>
  The digits that are not decimal (superscripts, subscripts, circled and other
  digits), as ranges of code points.
\<close>

definition other_digits :: "(int \<times> int) list" where
  "other_digits =
     [(0xB2, 0xB3), (0xB9, 0xB9), (0x1369, 0x1371), (0x19DA, 0x19DA), (0x2070, 0x2070),
       (0x2074, 0x2079), (0x2080, 0x2089), (0x2460, 0x2468), (0x2474, 0x247C),
       (0x2488, 0x2490), (0x24EA, 0x24EA), (0x24F5, 0x24FD), (0x24FF, 0x24FF),
       (0x2776, 0x277E), (0x2780, 0x2788), (0x278A, 0x2792), (0x10A40, 0x10A43),
       (0x10E60, 0x10E68), (0x11052, 0x1105A), (0x1F100, 0x1F10A)]"

definition in_ranges :: "(int \<times> int) list \<Rightarrow> int \<Rightarrow> bool" where
  "in_ranges rs c = list_ex (\<lambda>r. fst r \<le> c \<and> c \<le> snd r) rs"

definition is_digit :: "int \<Rightarrow> bool" where
  "is_digit c = (decimal_value c \<noteq> None \<or> in_ranges other_digits c)"

text \<open>\<^verbatim>\<open>str.isdigit()\<close>: at least one character, and every character a digit.\<close>

definition isdigit :: "int list \<Rightarrow> bool" where
  "isdigit s = (s \<noteq> [] \<and> list_all is_digit s)"

text \<open>
  The whitespace of \<^verbatim>\<open>str.isspace\<close>, of \<^verbatim>\<open>str.strip\<close> and of the whitespace
  class of a pattern.
\<close>

definition space_ranges :: "(int \<times> int) list" where
  "space_ranges =
     [(0x9, 0xD), (0x1C, 0x20), (0x85, 0x85), (0xA0, 0xA0), (0x1680, 0x1680),
       (0x2000, 0x200A), (0x2028, 0x2029), (0x202F, 0x202F), (0x205F, 0x205F),
       (0x3000, 0x3000)]"

definition is_space :: "char \<Rightarrow> bool" where
  "is_space c = in_ranges space_ranges (of_char c)"

text \<open>\<^verbatim>\<open>str.strip()\<close>: whitespace removed at both ends.\<close>

definition strip :: "string \<Rightarrow> string" where
  "strip s = rev (dropWhile is_space (rev (dropWhile is_space s)))"

text \<open>
  \<^verbatim>\<open>int(s)\<close>, base ten. A literal is read as ASCII: the whitespace of C (tab to
  carriage return, and the space) at both ends, an optional sign, then digits, where
  a single underscore may stand between two digits. A literal with more than
  \<^verbatim>\<open>sys.get_int_max_str_digits()\<close> digits, 4300 unless the interpreter is told
  otherwise, is refused. \<open>None\<close> is \<^verbatim>\<open>ValueError\<close>.
\<close>

definition is_int_space :: "int \<Rightarrow> bool" where
  "is_int_space c = ((9 \<le> c \<and> c \<le> 13) \<or> c = 32)"

definition is_ascii_digit :: "int \<Rightarrow> bool" where
  "is_ascii_digit c = (48 \<le> c \<and> c \<le> 57)"

definition int_max_str_digits :: nat where
  "int_max_str_digits = 4300"

fun parse_digits :: "int \<Rightarrow> bool \<Rightarrow> int list \<Rightarrow> int option" where
  "parse_digits acc prev_digit [] = (if prev_digit then Some acc else None)"
| "parse_digits acc prev_digit (c # cs) =
     (if is_ascii_digit c then parse_digits (10 * acc + (c - 48)) True cs
      else if c = 95 \<and> prev_digit then parse_digits acc False cs
      else None)"

definition parse_capped :: "int list \<Rightarrow> int option" where
  "parse_capped body =
     (if length (filter is_ascii_digit body) > int_max_str_digits then None
      else parse_digits 0 False body)"

definition py_int_literal :: "int list \<Rightarrow> int option" where
  "py_int_literal s =
     (case rev (dropWhile is_int_space (rev (dropWhile is_int_space s))) of
        [] \<Rightarrow> None
      | c # cs \<Rightarrow>
          if c = 43 then parse_capped cs
          else if c = 45 then map_option uminus (parse_capped cs)
          else parse_capped (c # cs))"

text \<open>
  For a string, every code point from 127 on is first made ASCII: a whitespace
  becomes a space, a decimal digit of any script its ASCII digit, and anything else
  a question mark, which no literal has. For bytes the literal is read as it is.
\<close>

definition int_ascii :: "int \<Rightarrow> int" where
  "int_ascii c =
     (if c < 127 then c
      else if in_ranges space_ranges c then 32
      else (case decimal_value c of Some d \<Rightarrow> 48 + d | None \<Rightarrow> 63))"

definition py_int_str :: "int list \<Rightarrow> int option" where
  "py_int_str s = py_int_literal (map int_ascii s)"

definition py_int_bytes :: "string \<Rightarrow> int option" where
  "py_int_bytes s = py_int_literal (map of_char s)"

text \<open>\<^verbatim>\<open>str(n)\<close> for an integer: its decimal digits.\<close>

fun str_nat :: "nat \<Rightarrow> string" where
  "str_nat n =
     (if n < 10 then [char_of (48 + n)]
      else str_nat (n div 10) @ [char_of (48 + n mod 10)])"

declare str_nat.simps [simp del]

definition str_int :: "int \<Rightarrow> string" where
  "str_int i = (if i < 0 then CHR ''-'' # str_nat (nat (- i)) else str_nat (nat i))"

subsection \<open>Schema version discovery (\<^verbatim>\<open>schema_versions\<close>)\<close>

text \<open>
  The directory listing \<^verbatim>\<open>schema_base().iterdir()\<close> is the list of the entries' names,
  in the order the file system yields them; a name is a list of code points.

  \<^verbatim>\<open>v.name[0] == "v" and v.name[1:].isdigit()\<close>: indexing an empty name raises.
\<close>

definition is_version_entry :: "int list \<Rightarrow> exn + bool" where
  "is_version_entry name =
     (case name of
        [] \<Rightarrow> Inl IndexError
      | c # cs \<Rightarrow> Inr (c = of_char CHR ''v'' \<and> isdigit cs))"

text \<open>The generator expression: the entries that pass the test, in listing order.\<close>

fun version_entries :: "int list list \<Rightarrow> exn + int list list" where
  "version_entries [] = Inr []"
| "version_entries (n # ns) =
     (case is_version_entry n of
        Inl e \<Rightarrow> Inl e
      | Inr b \<Rightarrow>
          (case version_entries ns of
             Inl e \<Rightarrow> Inl e
           | Inr vs \<Rightarrow> Inr (if b then n # vs else vs)))"

text \<open>The sort key \<^verbatim>\<open>int(k.name[1:])\<close> of each entry, computed before sorting.\<close>

fun version_keys :: "int list list \<Rightarrow> exn + (int \<times> int list) list" where
  "version_keys [] = Inr []"
| "version_keys (n # ns) =
     (case py_int_str (tl n) of
        None \<Rightarrow> Inl ValueError
      | Some k \<Rightarrow>
          (case version_keys ns of
             Inl e \<Rightarrow> Inl e
           | Inr kvs \<Rightarrow> Inr ((k, n) # kvs)))"

text \<open>\<^verbatim>\<open>sorted(..., key=...)\<close> is a stable sort on the keys, as \<open>sort_key\<close> is.\<close>

definition schema_versions :: "int list list \<Rightarrow> exn + int list list" where
  "schema_versions entries =
     (case version_entries entries of
        Inl e \<Rightarrow> Inl e
      | Inr vs \<Rightarrow>
          (case version_keys vs of
             Inl e \<Rightarrow> Inl e
           | Inr kvs \<Rightarrow> Inr (map snd (sort_key fst kvs))))"

text \<open>
  \<^verbatim>\<open>TaxonomyParser.__init__\<close>, the branch \<^verbatim>\<open>schema_version is None\<close>:
  the integer of the last discovered version, or \<^verbatim>\<open>TaxonomyReadingException\<close>
  when there is none.
\<close>

definition default_schema_version :: "int list list \<Rightarrow> exn + int" where
  "default_schema_version entries =
     (case schema_versions entries of
        Inl e \<Rightarrow> Inl e
      | Inr versions \<Rightarrow>
          if versions = [] then Inl (TaxonomyReadingException None)
          else (case py_int_str (tl (last versions)) of
                  None \<Rightarrow> Inl ValueError
                | Some n \<Rightarrow> Inr n))"

text \<open>
  The specification's words, to compare with: a version name is the character \<open>v\<close>
  followed by one or more digits, and its number is the decimal value of the digits.
  A digit is a decimal digit, of any script.
\<close>

definition is_decimal :: "int \<Rightarrow> bool" where
  "is_decimal c = (decimal_value c \<noteq> None)"

definition spec_version_name :: "int list \<Rightarrow> bool" where
  "spec_version_name n =
     (case n of
        [] \<Rightarrow> False
      | c # ds \<Rightarrow> c = of_char CHR ''v'' \<and> ds \<noteq> [] \<and> list_all is_decimal ds)"

definition decimal :: "int list \<Rightarrow> int" where
  "decimal ds = foldl (\<lambda>a c. 10 * a + (case decimal_value c of Some d \<Rightarrow> d | None \<Rightarrow> 0)) 0 ds"

definition spec_version_number :: "int list \<Rightarrow> int" where
  "spec_version_number n = decimal (tl n)"

text \<open>
  A listing, and the same listing with one more directory, whose name is \<open>v\<close> and
  the character SUPERSCRIPT TWO (U+00B2).
\<close>

definition listing_example :: "int list list" where
  "listing_example =
     map ustr [''v10'', ''__init__.py'', ''v9'', ''v'', ''v2x'', ''v2'', ''taxonomy.py'']"

definition listing_superscript :: "int list list" where
  "listing_superscript = listing_example @ [[of_char CHR ''v'', 0xB2]]"

subsection \<open>Decoded YAML and JSON values\<close>

text \<open>
  What \<^verbatim>\<open>yaml.safe_load\<close> and \<^verbatim>\<open>json.loads\<close> build. A float is a rational or one
  of the three special values; a mapping is the list of its items. Timestamps are
  opaque (\<^verbatim>\<open>datetime\<close> objects).
\<close>

datatype pyfloat = Finite rat | PosInf | NegInf | NaN

datatype yaml =
    YNull
  | YBool bool
  | YInt int
  | YFloat pyfloat
  | YStr string
  | YBytes string
  | YTimestamp string
  | YSeq "yaml list"
  | YSet "yaml list"
  | YMap "(yaml \<times> yaml) list"

text \<open>Truth value of an object, as \<^verbatim>\<open>not parsed\<close> tests it.\<close>

fun py_truthy :: "yaml \<Rightarrow> bool" where
  "py_truthy YNull = False"
| "py_truthy (YBool b) = b"
| "py_truthy (YInt n) = (n \<noteq> 0)"
| "py_truthy (YFloat f) = (f \<noteq> Finite 0)"
| "py_truthy (YStr s) = (s \<noteq> [])"
| "py_truthy (YBytes s) = (s \<noteq> [])"
| "py_truthy (YTimestamp s) = True"
| "py_truthy (YSeq xs) = (xs \<noteq> [])"
| "py_truthy (YSet xs) = (xs \<noteq> [])"
| "py_truthy (YMap m) = (m \<noteq> [])"

text \<open>
  A Python \<^verbatim>\<open>int\<close> object is an integer or a \<^verbatim>\<open>bool\<close>
  (\<^verbatim>\<open>isinstance(True, int)\<close> holds).
\<close>

datatype pyint = PInt int | PBool bool

fun int_of :: "pyint \<Rightarrow> int" where
  "int_of (PInt n) = n"
| "int_of (PBool b) = (if b then 1 else 0)"

fun str_pyint :: "pyint \<Rightarrow> string" where
  "str_pyint (PInt n) = str_int n"
| "str_pyint (PBool b) = (if b then ''True'' else ''False'')"

text \<open>
  \<^verbatim>\<open>int(x)\<close> for an object that is not an \<^verbatim>\<open>int\<close>: a string or bytes are parsed,
  a float is truncated towards zero, anything else is a \<^verbatim>\<open>TypeError\<close>.
\<close>

definition py_trunc :: "rat \<Rightarrow> int" where
  "py_trunc r = (if 0 \<le> r then \<lfloor>r\<rfloor> else \<lceil>r\<rceil>)"

fun py_int :: "yaml \<Rightarrow> exn + int" where
  "py_int (YInt n) = Inr n"
| "py_int (YBool b) = Inr (if b then 1 else 0)"
| "py_int (YStr s) = (case py_int_str (ustr s) of None \<Rightarrow> Inl ValueError | Some n \<Rightarrow> Inr n)"
| "py_int (YBytes s) = (case py_int_bytes s of None \<Rightarrow> Inl ValueError | Some n \<Rightarrow> Inr n)"
| "py_int (YFloat (Finite r)) = Inr (py_trunc r)"
| "py_int (YFloat NaN) = Inl ValueError"
| "py_int (YFloat PosInf) = Inl OverflowError"
| "py_int (YFloat NegInf) = Inl OverflowError"
| "py_int YNull = Inl TypeError"
| "py_int (YTimestamp s) = Inl TypeError"
| "py_int (YSeq xs) = Inl TypeError"
| "py_int (YSet xs) = Inl TypeError"
| "py_int (YMap m) = Inl TypeError"

subsection \<open>Paths\<close>

text \<open>
  A path is the list of its parts; an absolute path starts with its anchor (\<open>/\<close>).
  \<^verbatim>\<open>Path.name\<close> is the last part, or the empty string when the path is empty or
  only its anchor.
\<close>

definition path_name :: "string list \<Rightarrow> string" where
  "path_name parts = (if parts = [] \<or> parts = [''/''] then [] else last parts)"

fun join_parts :: "string list \<Rightarrow> string" where
  "join_parts [] = []"
| "join_parts [p] = p"
| "join_parts (p # q # ps) = p @ ''/'' @ join_parts (q # ps)"

definition path_str :: "string list \<Rightarrow> string" where
  "path_str parts =
     (case parts of
        [] \<Rightarrow> ''.''
      | p # ps \<Rightarrow> if p = ''/'' then ''/'' @ join_parts ps else join_parts parts)"

subsection \<open>Message formatting and output\<close>

text \<open>
  The objects handed to a message as \<^verbatim>\<open>message_args\<close>, and their \<^verbatim>\<open>str()\<close>.
  The text of an exception and of a value that is not a string or an integer is left
  to the interpreter: the first two functions of \<open>pystr\<close>.
\<close>

datatype pyobj = OStr string | OPath "string list" | OExc exn | OVal yaml

record pystr =
  str_exn :: "exn \<Rightarrow> string"
  str_value :: "yaml \<Rightarrow> string"
  format_other :: "string \<Rightarrow> pyobj list \<Rightarrow> exn + string"

fun py_str :: "pystr \<Rightarrow> pyobj \<Rightarrow> string" where
  "py_str ps (OStr s) = s"
| "py_str ps (OPath p) = path_str p"
| "py_str ps (OExc e) = str_exn ps e"
| "py_str ps (OVal (YStr s)) = s"
| "py_str ps (OVal (YInt n)) = str_int n"
| "py_str ps (OVal (YBool b)) = (if b then ''True'' else ''False'')"
| "py_str ps (OVal YNull) = ''None''"
| "py_str ps (OVal v) = str_value ps v"

text \<open>
  \<^verbatim>\<open>message % message_args\<close> with a tuple of arguments. After a \<open>%\<close> comes a
  conversion: an optional mapping key in parentheses, flags, a width, a precision, a
  length modifier, and the conversion type. \<open>conversion_syntax\<close> holds the characters
  that can start one. A format is plain when each of its \<open>%\<close> is the last character
  or is followed by \<open>s\<close>, by \<open>%\<close> or by a character outside that syntax; the messages
  of this module are plain.
\<close>

definition conversion_syntax :: string where
  "conversion_syntax = ''(-+ #0123456789*.hlLdiouxXeEfFgGcrsa%''"

fun plain_format :: "string \<Rightarrow> bool" where
  "plain_format [] = True"
| "plain_format [c] = True"
| "plain_format (c # d # cs) =
     (if c \<noteq> CHR ''%'' then plain_format (d # cs)
      else (d = CHR ''s'' \<or> d = CHR ''%'' \<or> d \<notin> set conversion_syntax) \<and> plain_format cs)"

text \<open>
  A plain format, with the arguments given by their \<^verbatim>\<open>str()\<close>: \<^verbatim>\<open>%s\<close> takes
  the next argument and \<^verbatim>\<open>%%\<close> is a percent sign. Too few arguments and arguments
  left over are a \<^verbatim>\<open>TypeError\<close>, a \<open>%\<close> at the end of the text is a
  \<^verbatim>\<open>ValueError\<close>. At a \<open>%\<close> followed by a character outside the conversion syntax
  the argument is fetched before the conversion type is looked at, so the failure is
  \<^verbatim>\<open>TypeError\<close> when no argument is left and \<^verbatim>\<open>ValueError\<close> otherwise.
\<close>

fun format_plain :: "string \<Rightarrow> string list \<Rightarrow> exn + string" where
  "format_plain [] [] = Inr []"
| "format_plain [] (a # as) = Inl TypeError"
| "format_plain [c] as =
     (if c = CHR ''%'' then Inl ValueError
      else (case format_plain [] as of Inl e \<Rightarrow> Inl e | Inr r \<Rightarrow> Inr (c # r)))"
| "format_plain (c # d # cs) as =
     (if c \<noteq> CHR ''%'' then
        (case format_plain (d # cs) as of Inl e \<Rightarrow> Inl e | Inr r \<Rightarrow> Inr (c # r))
      else if d = CHR ''%'' then
        (case format_plain cs as of Inl e \<Rightarrow> Inl e | Inr r \<Rightarrow> Inr (CHR ''%'' # r))
      else if d = CHR ''s'' then
        (case as of
           [] \<Rightarrow> Inl TypeError
         | a # as' \<Rightarrow> (case format_plain cs as' of Inl e \<Rightarrow> Inl e | Inr r \<Rightarrow> Inr (a @ r)))
      else (case as of [] \<Rightarrow> Inl TypeError | a # as' \<Rightarrow> Inl ValueError))"

text \<open>
  Any other format uses more of the conversion syntax, and what the operator makes
  of it and of the argument objects is left to the interpreter: the third function
  of \<open>pystr\<close>.
\<close>

definition py_format :: "pystr \<Rightarrow> string \<Rightarrow> pyobj list \<Rightarrow> exn + string" where
  "py_format ps message args =
     (if plain_format message then format_plain message (map (py_str ps) args)
      else format_other ps message args)"

text \<open>A line or column is \<^verbatim>\<open>str | int\<close>.\<close>

datatype lc = LInt int | LStr string

fun str_lc :: "lc \<Rightarrow> string" where
  "str_lc (LInt n) = str_int n"
| "str_lc (LStr s) = s"

fun obj_lc :: "lc \<Rightarrow> pyobj" where
  "obj_lc (LInt n) = OVal (YInt n)"
| "obj_lc (LStr s) = OStr s"

text \<open>
  What the code does to the outside: a line printed on standard output, a call of
  the module's logger (format string, argument objects, and the exception of
  \<^verbatim>\<open>exc_info\<close>), a subprocess run (command and standard input), and a schema file
  read.
\<close>

datatype level = ERROR | WARNING

datatype event =
    Print string
  | Log level string "pyobj list" "exn option"
  | Run "string list" string
  | ReadText string

text \<open>
  The text of a log record, as the logging library renders it on demand:
  \<^verbatim>\<open>msg % args\<close> when there are arguments.
\<close>

definition getMessage :: "pystr \<Rightarrow> string \<Rightarrow> pyobj list \<Rightarrow> exn + string" where
  "getMessage ps msg args = (if args \<noteq> [] then py_format ps msg args else Inr msg)"

subsection \<open>The entry (\<^verbatim>\<open>Taxonomy\<close>)\<close>

datatype TaxonomyMessageFormat = AUTO | STANDARD | GITHUB | LOGGING

record Taxonomy =
  path :: "string list"
  rel_path :: "string list"
  message_format :: TaxonomyMessageFormat
  errors :: int
  warnings :: int
  parsed :: "(yaml \<times> yaml) list"
  version :: pyint

text \<open>
  \<^verbatim>\<open>Taxonomy.__init__\<close>. The process is given by its working directory and the
  names set in its environment; \<^verbatim>\<open>abs_path\<close> is already resolved.
\<close>

record process =
  cwd :: "string list"
  environ :: "string list"

definition Taxonomy_init ::
  "process \<Rightarrow> string list \<Rightarrow> string list \<Rightarrow> TaxonomyMessageFormat \<Rightarrow> Taxonomy" where
  "Taxonomy_init pr pth abs_path mf =
     \<lparr> path = pth,
       rel_path = (if take (length (cwd pr)) abs_path = cwd pr
                   then drop (length (cwd pr)) abs_path else abs_path),
       message_format =
         (if mf = AUTO then
            (if ''GITHUB_ACTIONS'' \<in> set (environ pr) \<and> ''GITHUB_WORKFLOW'' \<in> set (environ pr)
             then GITHUB else STANDARD)
          else mf),
       errors = 0,
       warnings = 0,
       parsed = [],
       version = PInt 0 \<rparr>"

text \<open>
  The \<^verbatim>\<open>match self.message_format\<close> statement shared, text for text, by
  \<^verbatim>\<open>error\<close> and \<^verbatim>\<open>warning\<close>; \<open>std\<close> and \<open>gh\<close> are the two severity labels and
  \<open>lv\<close> the logger method. The result is the event emitted, or the exception the
  formatting raised.
\<close>

definition emit ::
  "pystr \<Rightarrow> string \<Rightarrow> string \<Rightarrow> level \<Rightarrow> Taxonomy \<Rightarrow> string \<Rightarrow> pyobj list \<Rightarrow> lc \<Rightarrow> lc
     \<Rightarrow> string \<Rightarrow> exn + event" where
  "emit ps std gh lv self message message_args line col yaml_path =
     (let rp = path_str (rel_path self); l = str_lc line; c = str_lc col
      in case message_format self of
           GITHUB \<Rightarrow>
             (case (if message_args \<noteq> [] then py_format ps message message_args
                    else Inr message) of
                Inl e \<Rightarrow> Inl e
              | Inr m \<Rightarrow>
                  Inr (Print
                    (if yaml_path \<noteq> []
                     then ''::'' @ gh @ '' file='' @ rp @ '',line='' @ l @ '',col='' @ c @ ''::''
                            @ l @ '':'' @ c @ '' ['' @ yaml_path @ ''] '' @ m
                     else ''::'' @ gh @ '' file='' @ rp @ '',line='' @ l @ '',col='' @ c @ ''::''
                            @ l @ '':'' @ c @ '' '' @ m)))
         | LOGGING \<Rightarrow>
             (if yaml_path \<noteq> []
              then Inr (Log lv (''%s:%s:%s [%s] '' @ message)
                          ([OPath (rel_path self), obj_lc line, obj_lc col, OStr yaml_path]
                           @ message_args) None)
              else Inr (Log lv (''%s:%s:%s '' @ message)
                          ([OPath (rel_path self), obj_lc line, obj_lc col] @ message_args) None))
         | _ \<Rightarrow>
             (case (if message_args \<noteq> [] then py_format ps message message_args
                    else Inr message) of
                Inl e \<Rightarrow> Inl e
              | Inr m \<Rightarrow>
                  Inr (Print
                    (if yaml_path \<noteq> []
                     then std @ '': '' @ rp @ '':'' @ l @ '':'' @ c @ '' ['' @ yaml_path @ ''] '' @ m
                     else std @ '': '' @ rp @ '':'' @ l @ '':'' @ c @ '' '' @ m))))"

text \<open>
  \<^verbatim>\<open>Taxonomy.error\<close> and \<^verbatim>\<open>Taxonomy.warning\<close>. The counter is incremented first.
  The result is: what the call evaluates to (\<open>Return\<close> of the entry itself, or the
  exception raised), the state of the entry after the call, and the events emitted.
\<close>

definition error ::
  "pystr \<Rightarrow> Taxonomy \<Rightarrow> string \<Rightarrow> pyobj list \<Rightarrow> lc \<Rightarrow> lc \<Rightarrow> string
     \<Rightarrow> Taxonomy result \<times> Taxonomy \<times> event list" where
  "error ps self message message_args line col yaml_path =
     (let self' = self\<lparr>errors := errors self + 1\<rparr>
      in case emit ps ''ERROR'' ''error'' ERROR self' message message_args line col yaml_path of
           Inl e \<Rightarrow> (Raise e, self', [])
         | Inr ev \<Rightarrow> (Return self', self', [ev]))"

definition warning ::
  "pystr \<Rightarrow> Taxonomy \<Rightarrow> string \<Rightarrow> pyobj list \<Rightarrow> lc \<Rightarrow> lc \<Rightarrow> string
     \<Rightarrow> Taxonomy result \<times> Taxonomy \<times> event list" where
  "warning ps self message message_args line col yaml_path =
     (let self' = self\<lparr>warnings := warnings self + 1\<rparr>
      in case emit ps ''WARN'' ''warning'' WARNING self' message message_args line col yaml_path of
           Inl e \<Rightarrow> (Raise e, self', [])
         | Inr ev \<Rightarrow> (Return self', self', [ev]))"

subsection \<open>The outside world\<close>

text \<open>
  A violation as the schema engine reports it (\<open>ve_message\<close> is its
  \<^verbatim>\<open>message\<close>).
\<close>

record ValidationError =
  validator :: string
  validator_value :: yaml
  ve_message :: string
  json_path :: string

text \<open>
  The collaborators the code calls, as functions of what they are given:
  \<^item> \<open>isfile\<close>: \<^verbatim>\<open>os.path.isfile\<close>;
  \<^item> \<open>read_text\<close>: opening and reading the file as UTF-8;
  \<^item> \<open>safe_load\<close>: \<^verbatim>\<open>yaml.safe_load\<close>;
  \<^item> \<open>subprocess_run\<close>: \<^verbatim>\<open>subprocess.run(cmd, check=False, input=...)\<close>, giving the
    combined output;
  \<^item> \<open>check_output\<close>: \<^verbatim>\<open>subprocess.check_output(cmd, input=...)\<close>;
  \<^item> \<open>schema_files\<close>: a schema file read, decoded as JSON and made a resource, or
    \<open>None\<close> when any of this raises;
  \<^item> \<open>iter_errors\<close>: building the validator for a schema and iterating its
    violations of a document: the violations yielded and, if the engine raised, the
    exception that ended the iteration. The schema documents the engine fetches for
    cross-references while it validates, through \<^verbatim>\<open>_retrieve\<close>, are part of this
    collaborator: their reads and their cache entries are not traced.
  A resource of the schema engine is a value of the type \<open>'r\<close>.
\<close>

record 'r env =
  proc :: process
  strs :: pystr
  isfile :: "string list \<Rightarrow> bool"
  read_text :: "string list \<Rightarrow> exn + string"
  safe_load :: "string \<Rightarrow> exn + yaml"
  subprocess_run :: "string list \<Rightarrow> string \<Rightarrow> exn + string"
  check_output :: "string list \<Rightarrow> string \<Rightarrow> exn + string"
  schema_files :: "string \<Rightarrow> 'r option"
  iter_errors :: "'r \<Rightarrow> (yaml \<times> yaml) list \<Rightarrow> ValidationError list \<times> exn option"

subsection \<open>The parser (\<^verbatim>\<open>TaxonomyParser\<close>)\<close>

text \<open>
  \<open>ident\<close> is the identity of the parser object, which the cache of
  \<^verbatim>\<open>_load_schema\<close> keys on; \<open>p_message_format\<close> is the field
  \<^verbatim>\<open>message_format\<close>.
\<close>

record TaxonomyParser =
  ident :: nat
  taxonomy_folders :: "string list"
  schema_version :: int
  yamllint_config :: string
  yamllint_strict :: bool
  p_message_format :: TaxonomyMessageFormat
  yq_available :: bool

definition DEFAULT_TAXONOMY_FOLDERS :: "string list" where
  "DEFAULT_TAXONOMY_FOLDERS = [''compositional_skills'', ''knowledge'']"

definition DEFAULT_YAMLLINT_CONFIG :: string where
  "DEFAULT_YAMLLINT_CONFIG = ''{extends: relaxed, rules: {line-length: {max: 120}}}''"

text \<open>
  \<^verbatim>\<open>str.upper()\<close> of a name that is then looked up among four names in ASCII
  capitals: the ASCII letters are mapped. A name with another character below 256 is
  none of the four, whatever becomes of that character.
\<close>

definition upper :: "string \<Rightarrow> string" where
  "upper s = map (\<lambda>c. if 97 \<le> (of_char c :: nat) \<and> (of_char c :: nat) \<le> 122
                        then char_of ((of_char c :: nat) - 32) else c) s"

text \<open>\<^verbatim>\<open>TaxonomyMessageFormat[name]\<close>.\<close>

definition format_by_name :: "string \<Rightarrow> exn + TaxonomyMessageFormat" where
  "format_by_name n =
     (if n = ''AUTO'' then Inr AUTO
      else if n = ''STANDARD'' then Inr STANDARD
      else if n = ''GITHUB'' then Inr GITHUB
      else if n = ''LOGGING'' then Inr LOGGING
      else Inl KeyError)"

datatype format_arg = FormatEnum TaxonomyMessageFormat | FormatName string

text \<open>
  \<^verbatim>\<open>TaxonomyParser.__init__\<close>; \<open>listing\<close> is the directory listing of the schema
  base, read only when no schema version is given.
\<close>

definition TaxonomyParser_init ::
  "nat \<Rightarrow> int list list \<Rightarrow> string list option \<Rightarrow> int option \<Rightarrow> string option \<Rightarrow> bool
     \<Rightarrow> format_arg option \<Rightarrow> exn + TaxonomyParser" where
  "TaxonomyParser_init self_id listing folders_arg version_arg config_arg strict format =
     (case (case version_arg of
              None \<Rightarrow> default_schema_version listing
            | Some v \<Rightarrow> Inr v) of
        Inl e \<Rightarrow> Inl e
      | Inr v \<Rightarrow>
          (case (case format of
                   None \<Rightarrow> Inr AUTO
                 | Some (FormatEnum f) \<Rightarrow> Inr f
                 | Some (FormatName n) \<Rightarrow> format_by_name (upper n)) of
             Inl e \<Rightarrow> Inl e
           | Inr f \<Rightarrow>
               Inr \<lparr> ident = self_id,
                     taxonomy_folders =
                       (case folders_arg of None \<Rightarrow> DEFAULT_TAXONOMY_FOLDERS | Some fs \<Rightarrow> fs),
                     schema_version = v,
                     yamllint_config =
                       (case config_arg of None \<Rightarrow> DEFAULT_YAMLLINT_CONFIG | Some c \<Rightarrow> c),
                     yamllint_strict = strict,
                     p_message_format = f,
                     yq_available = True \<rparr>))"

subsection \<open>The lint adapter (\<^verbatim>\<open>_yamllint\<close>)\<close>

text \<open>\<^verbatim>\<open>str.splitlines()\<close>, with the line boundaries below 256.\<close>

definition is_linebreak :: "char \<Rightarrow> bool" where
  "is_linebreak c =
     (let n = (of_char c :: nat) in (10 \<le> n \<and> n \<le> 13) \<or> (28 \<le> n \<and> n \<le> 30) \<or> n = 133)"

fun splitlines_from :: "string \<Rightarrow> string \<Rightarrow> string list" where
  "splitlines_from cur [] = (if cur = [] then [] else [rev cur])"
| "splitlines_from cur [c] = (if is_linebreak c then [rev cur] else [rev (c # cur)])"
| "splitlines_from cur (c # d # cs) =
     (if c = CHR 0x0D \<and> d = CHR 0x0A then rev cur # splitlines_from [] cs
      else if is_linebreak c then rev cur # splitlines_from [] (d # cs)
      else splitlines_from (c # cur) (d # cs))"

definition splitlines :: "string \<Rightarrow> string list" where
  "splitlines s = splitlines_from [] s"

text \<open>
  The pattern
  \<^verbatim>\<open>[^:]+:(?P<line>[^:]+):(?P<col>[^:]+):\s*\[(?P<severity>[^]]+)\]\s*(?P<message>.*)\<close>
  matched at the start of a line: the groups line, col, severity and message. Every
  repetition is followed by a character outside its class, so the match is the
  greedy one.
\<close>

definition not_colon :: "char \<Rightarrow> bool" where
  "not_colon c = (c \<noteq> CHR '':'')"

definition not_rbracket :: "char \<Rightarrow> bool" where
  "not_rbracket c = (c \<noteq> CHR '']'')"

definition not_newline :: "char \<Rightarrow> bool" where
  "not_newline c = (c \<noteq> CHR 0x0A)"

definition pattern_match :: "string \<Rightarrow> (string \<times> string \<times> string \<times> string) option" where
  "pattern_match s =
     (let r0 = dropWhile not_colon s in
      if takeWhile not_colon s = [] \<or> r0 = [] then None
      else
        let lno = takeWhile not_colon (tl r0); r1 = dropWhile not_colon (tl r0) in
        if lno = [] \<or> r1 = [] then None
        else
          let cl = takeWhile not_colon (tl r1); r2 = dropWhile not_colon (tl r1) in
          if cl = [] \<or> r2 = [] then None
          else
            (case dropWhile is_space (tl r2) of
               [] \<Rightarrow> None
             | b # s4 \<Rightarrow>
                 let severity = takeWhile not_rbracket s4; r4 = dropWhile not_rbracket s4 in
                 if b \<noteq> CHR ''['' \<or> severity = [] \<or> r4 = [] then None
                 else Some (lno, cl, severity,
                            takeWhile not_newline (dropWhile is_space (tl r4)))))"

text \<open>The loop over the output lines.\<close>

fun lint_lines ::
  "pystr \<Rightarrow> TaxonomyParser \<Rightarrow> string list \<Rightarrow> Taxonomy
     \<Rightarrow> unit result \<times> Taxonomy \<times> event list" where
  "lint_lines ps p [] t = (Return (), t, [])"
| "lint_lines ps p (l # ls) t =
     (case pattern_match l of
        None \<Rightarrow> lint_lines ps p ls t
      | Some (lno, cl, severity, msg) \<Rightarrow>
          (case (if yamllint_strict p \<or> severity = ''error''
                 then error ps t msg [] (LStr lno) (LStr cl) []
                 else warning ps t msg [] (LStr lno) (LStr cl) []) of
             (Raise e, t', out) \<Rightarrow> (Raise e, t', out)
           | (Return _, t', out) \<Rightarrow>
               (case lint_lines ps p ls t' of
                  (r, t'', out') \<Rightarrow> (r, t'', out @ out'))))"

definition yamllint_cmd :: "TaxonomyParser \<Rightarrow> string list" where
  "yamllint_cmd p = [''yamllint'', ''-f'', ''parsable'', ''-d'', yamllint_config p, ''-'']"

definition yamllint ::
  "'r env \<Rightarrow> TaxonomyParser \<Rightarrow> string \<Rightarrow> Taxonomy \<Rightarrow> unit result \<times> Taxonomy \<times> event list" where
  "yamllint env p content t =
     (case subprocess_run env (yamllint_cmd p) content of
        Inl e \<Rightarrow>
          if e = FileNotFoundError
          then (Return (), t,
                [Run (yamllint_cmd p) content,
                 Log WARNING ''could not run yamllint command'' [] (Some e)])
          else (Raise e, t, [Run (yamllint_cmd p) content])
      | Inr stdout \<Rightarrow>
          (case lint_lines (strs env) p (splitlines stdout) t of
             (r, t', out) \<Rightarrow> (r, t', Run (yamllint_cmd p) content # out)))"

subsection \<open>The schema cache (\<^verbatim>\<open>_load_schema\<close>, \<^verbatim>\<open>_retrieve\<close>)\<close>

text \<open>
  \<^verbatim>\<open>@lru_cache\<close> without arguments: at most 128 results, keyed on the arguments
  \<^verbatim>\<open>(self, path)\<close>, the most recently used first. A hit moves its entry to the
  front; a call that raises stores nothing; a new result is put in front and, when
  the cache is full, the least recently used entry is dropped.
\<close>

type_synonym 'r lru = "((nat \<times> string) \<times> 'r) list"

definition lru_maxsize :: nat where
  "lru_maxsize = 128"

definition load_schema ::
  "(string \<Rightarrow> 'r option) \<Rightarrow> nat \<Rightarrow> string \<Rightarrow> 'r lru \<Rightarrow> (exn + 'r) \<times> 'r lru \<times> event list" where
  "load_schema files self_id pth cache =
     (case map_of cache (self_id, pth) of
        Some r \<Rightarrow>
          (Inr r, ((self_id, pth), r) # filter (\<lambda>e. fst e \<noteq> (self_id, pth)) cache, [])
      | None \<Rightarrow>
          (case files pth of
             None \<Rightarrow> (Inl (NoSuchResource pth), cache, [ReadText pth])
           | Some r \<Rightarrow>
               (Inr r, take lru_maxsize (((self_id, pth), r) # cache), [ReadText pth])))"

text \<open>
  \<^verbatim>\<open>Path(version_base, schema).as_posix()\<close>, for the arguments
  \<^verbatim>\<open>_schema_validate\<close> builds: a version base without a slash, and a schema name
  made of one part of a path, which is a single segment or, for the anchor \<open>/\<close>, starts
  at the root and then replaces the base.
\<close>

definition as_posix :: "string \<Rightarrow> string \<Rightarrow> string" where
  "as_posix version_base schema =
     (if take 1 schema = ''/'' then schema else version_base @ ''/'' @ schema)"

definition retrieve ::
  "(string \<Rightarrow> 'r option) \<Rightarrow> nat \<Rightarrow> string \<Rightarrow> string \<Rightarrow> 'r lru
     \<Rightarrow> (exn + 'r) \<times> 'r lru \<times> event list" where
  "retrieve files self_id version_base schema cache =
     load_schema files self_id (as_posix version_base schema) cache"

text \<open>A sequence of loads, each against the files as they are at that moment.\<close>

fun loads ::
  "((string \<Rightarrow> 'r option) \<times> nat \<times> string) list \<Rightarrow> 'r lru \<Rightarrow> 'r lru \<times> event list" where
  "loads [] cache = (cache, [])"
| "loads ((files, self_id, pth) # rs) cache =
     (case load_schema files self_id pth cache of
        (r, cache', out) \<Rightarrow>
          (case loads rs cache' of (cache'', out') \<Rightarrow> (cache'', out @ out')))"

subsection \<open>Schema validation (\<^verbatim>\<open>_schema_validate\<close>)\<close>

text \<open>The line lookup of one violation (the block under \<^verbatim>\<open>if self.yq_available\<close>).\<close>

definition locate_line ::
  "'r env \<Rightarrow> string \<Rightarrow> string \<Rightarrow> TaxonomyParser \<Rightarrow> lc result \<times> TaxonomyParser \<times> event list" where
  "locate_line env content yaml_path p =
     (if yq_available p then
        (case check_output env [''yq'', yaml_path @ '' | line''] content of
           Inr out \<Rightarrow>
             (Return (if out \<noteq> [] then LStr (strip out) else LInt 1), p,
              [Run [''yq'', yaml_path @ '' | line''] content])
         | Inl e \<Rightarrow>
             if e = SubprocessError \<or> e = FileNotFoundError
             then (Return (LInt 1),
                   (if e = FileNotFoundError then p\<lparr>yq_available := False\<rparr> else p),
                   [Run [''yq'', yaml_path @ '' | line''] content,
                    Log WARNING ''could not run yq command'' [] (Some e)])
             else (Raise e, p, [Run [''yq'', yaml_path @ '' | line''] content]))
      else (Return (LInt 1), p, []))"

text \<open>\<^verbatim>\<open>s[-200:]\<close>.\<close>

definition last200 :: "string \<Rightarrow> string" where
  "last200 s = drop (length s - 200) s"

text \<open>The report of one violation, once its line is known.\<close>

definition report_violation ::
  "pystr \<Rightarrow> Taxonomy \<Rightarrow> ValidationError \<Rightarrow> lc \<Rightarrow> string
     \<Rightarrow> Taxonomy result \<times> Taxonomy \<times> event list" where
  "report_violation ps t ve line yaml_path =
     (if validator ve = ''minItems''
      then error ps t ''Value must have at least %s items'' [OVal (validator_value ve)]
             line (LInt 1) yaml_path
      else error ps t (last200 (ve_message ve)) [] line (LInt 1) yaml_path)"

definition yaml_path_of :: "ValidationError \<Rightarrow> string" where
  "yaml_path_of ve = (if tl (json_path ve) = [] then ''.'' else tl (json_path ve))"

text \<open>The loop over the violations.\<close>

fun report_violations ::
  "'r env \<Rightarrow> string \<Rightarrow> ValidationError list \<Rightarrow> TaxonomyParser \<Rightarrow> Taxonomy
     \<Rightarrow> unit result \<times> TaxonomyParser \<times> Taxonomy \<times> event list" where
  "report_violations env content [] p t = (Return (), p, t, [])"
| "report_violations env content (ve # ves) p t =
     (case locate_line env content (yaml_path_of ve) p of
        (Raise e, p', out) \<Rightarrow> (Raise e, p', t, out)
      | (Return line, p', out) \<Rightarrow>
          (case report_violation (strs env) t ve line (yaml_path_of ve) of
             (Raise e, t', out') \<Rightarrow> (Raise e, p', t', out @ out')
           | (Return _, t', out') \<Rightarrow>
               (case report_violations env content ves p' t' of
                  (r, p'', t'', out'') \<Rightarrow> (r, p'', t'', out @ out' @ out''))))"

text \<open>The clause \<^verbatim>\<open>except NoSuchResource as e\<close>; any other exception goes on.\<close>

definition except_NoSuchResource ::
  "pystr \<Rightarrow> exn \<Rightarrow> Taxonomy \<Rightarrow> unit result \<times> Taxonomy \<times> event list" where
  "except_NoSuchResource ps e t =
     (case e of
        NoSuchResource ref \<Rightarrow>
          (case error ps t ''Cannot load schema file %s. %s'' [OStr ref, OExc e]
                  (LInt 1) (LInt 1) [] of
             (Raise e', t', out) \<Rightarrow> (Raise e', t', out)
           | (Return _, t', out) \<Rightarrow> (Return (), t', out))
      | _ \<Rightarrow> (Raise e, t, []))"

definition schema_name_of :: "TaxonomyParser \<Rightarrow> Taxonomy \<Rightarrow> string \<Rightarrow> string" where
  "schema_name_of p t first =
     (if first \<in> set (taxonomy_folders p) then first
      else if map_of (parsed t) (YStr ''document'') \<noteq> None then ''knowledge''
      else ''compositional_skills'')"

definition schema_validate ::
  "'r env \<Rightarrow> string \<Rightarrow> TaxonomyParser \<Rightarrow> Taxonomy \<Rightarrow> 'r lru
     \<Rightarrow> unit result \<times> TaxonomyParser \<times> Taxonomy \<times> 'r lru \<times> event list" where
  "schema_validate env content p t cache =
     (case path t of
        [] \<Rightarrow> (Raise IndexError, p, t, cache, [])
      | first # rest \<Rightarrow>
          (case retrieve (schema_files env) (ident p) (''v'' @ str_pyint (version t))
                  (schema_name_of p t first @ ''.json'') cache of
             (Inl e, cache', out) \<Rightarrow>
               (case except_NoSuchResource (strs env) e t of
                  (r, t', out') \<Rightarrow> (r, p, t', cache', out @ out'))
           | (Inr schema, cache', out) \<Rightarrow>
               (case report_violations env content (fst (iter_errors env schema (parsed t))) p t of
                  (Raise e, p', t', out') \<Rightarrow>
                    (case except_NoSuchResource (strs env) e t' of
                       (r, t'', out'') \<Rightarrow> (r, p', t'', cache', out @ out' @ out''))
                | (Return _, p', t', out') \<Rightarrow>
                    (case snd (iter_errors env schema (parsed t)) of
                       None \<Rightarrow> (Return (), p', t', cache', out @ out')
                     | Some e \<Rightarrow>
                         (case except_NoSuchResource (strs env) e t' of
                            (r, t'', out'') \<Rightarrow> (r, p', t'', cache', out @ out' @ out''))))))"

subsection \<open>The orchestrator (\<^verbatim>\<open>parse\<close>)\<close>

text \<open>
  The loop over the parts of the absolute path, from the last to the first: the
  entry's path starts at the last part that is a taxonomy folder, or is the whole
  path.
\<close>

fun anchor :: "string list \<Rightarrow> string list \<Rightarrow> string list option" where
  "anchor folders [] = None"
| "anchor folders (x # xs) =
     (case anchor folders xs of
        Some sfx \<Rightarrow> Some sfx
      | None \<Rightarrow> if x \<in> set folders then Some (x # xs) else None)"

definition taxonomy_path :: "string list \<Rightarrow> string list \<Rightarrow> string list" where
  "taxonomy_path folders abs_path =
     (case anchor folders abs_path of Some sfx \<Rightarrow> sfx | None \<Rightarrow> abs_path)"

text \<open>Version resolution (the lines from \<^verbatim>\<open>version: int = self.schema_version\<close>).\<close>

definition resolve_version :: "TaxonomyParser \<Rightarrow> (yaml \<times> yaml) list \<Rightarrow> exn + pyint" where
  "resolve_version p doc =
     (if schema_version p < 1 then
        (case (case map_of doc (YStr ''version'') of None \<Rightarrow> YInt 1 | Some v \<Rightarrow> v) of
           YInt n \<Rightarrow> Inr (PInt n)
         | YBool b \<Rightarrow> Inr (PBool b)
         | parsed_version \<Rightarrow>
             (case py_int parsed_version of
                Inr n \<Rightarrow> Inr (PInt n)
              | Inl e \<Rightarrow> if e = ValueError then Inr (PInt 1) else Inl e))
      else Inr (PInt (schema_version p)))"

text \<open>The body of the \<^verbatim>\<open>try\<close> statement.\<close>

definition parse_body ::
  "'r env \<Rightarrow> TaxonomyParser \<Rightarrow> string list \<Rightarrow> Taxonomy \<Rightarrow> 'r lru
     \<Rightarrow> Taxonomy result \<times> TaxonomyParser \<times> 'r lru \<times> event list" where
  \<open>parse_body env p abs_path taxonomy cache =
     (case read_text env abs_path of
        Inl e \<Rightarrow> (Raise e, p, cache, [])
      | Inr content \<Rightarrow>
          (case safe_load env content of
             Inl e \<Rightarrow> (Raise e, p, cache, [])
           | Inr doc \<Rightarrow>
               if \<not> py_truthy doc then
                 (case warning (strs env) taxonomy ''The file is empty'' [] (LInt 1) (LInt 1) [] of
                    (r, t', out) \<Rightarrow> (r, p, cache, out))
               else
                 (case doc of
                    YMap m \<Rightarrow>
                      (case resolve_version p m of
                         Inl e \<Rightarrow> (Raise e, p, cache, [])
                       | Inr v \<Rightarrow>
                           (case (if int_of v > 1
                                  then yamllint env p content (taxonomy\<lparr>version := v, parsed := m\<rparr>)
                                  else (Return (), taxonomy\<lparr>version := v, parsed := m\<rparr>, [])) of
                              (Raise e, t2, out) \<Rightarrow> (Raise e, p, cache, out)
                            | (Return u, t2, out) \<Rightarrow>
                                (case schema_validate env content p t2 cache of
                                   (Raise e, p', t3, cache', out') \<Rightarrow>
                                     (Raise e, p', cache', out @ out')
                                 | (Return u', p', t3, cache', out') \<Rightarrow>
                                     (Return t3, p', cache', out @ out'))))
                  | _ \<Rightarrow>
                      (case error (strs env) taxonomy
                              ''The file is not valid. The top-level element is not an object with key-value pairs.''
                              [] (LInt 1) (LInt 1) [] of
                         (r, t', out) \<Rightarrow> (r, p, cache, out)))))\<close>

text \<open>The entry created before anything is read (the \<^verbatim>\<open>for ... else\<close> statement).\<close>

definition new_entry :: "'r env \<Rightarrow> TaxonomyParser \<Rightarrow> string list \<Rightarrow> Taxonomy" where
  "new_entry env p abs_path =
     Taxonomy_init (proc env) (taxonomy_path (taxonomy_folders p) abs_path) abs_path
       (p_message_format p)"

text \<open>
  \<^verbatim>\<open>TaxonomyParser.parse\<close>; \<open>abs_path\<close> is \<^verbatim>\<open>Path(path).resolve()\<close>. The result is
  what the call evaluates to, the parser and the cache after the call, and the
  events in the order they happened.
\<close>

definition parse ::
  "'r env \<Rightarrow> TaxonomyParser \<Rightarrow> string list \<Rightarrow> 'r lru
     \<Rightarrow> Taxonomy result \<times> TaxonomyParser \<times> 'r lru \<times> event list" where
  \<open>parse env p abs_path cache =
     (let taxonomy = new_entry env p abs_path
      in if \<not> isfile env abs_path then
           (case error (strs env) taxonomy ''The file "%s" does not exist or is not a file''
                   [OPath abs_path] (LInt 1) (LInt 1) [] of
              (r, t', out) \<Rightarrow> (r, p, cache, out))
         else if path_name abs_path \<noteq> ''qna.yaml'' then
           (case error (strs env) taxonomy
                   ''Taxonomy file must be named "qna.yaml"; "%s" is not a valid name''
                   [OStr (path_name abs_path)] (LInt 1) (LInt 1) [] of
              (r, t', out) \<Rightarrow> (r, p, cache, out))
         else
           (case parse_body env p abs_path taxonomy cache of
              (Raise e, p', cache', out) \<Rightarrow>
                (Raise (TaxonomyReadingException (Some e)), p', cache', out)
            | (Return t, p', cache', out) \<Rightarrow> (Return t, p', cache', out)))\<close>

subsection \<open>Observations on entries and events\<close>

text \<open>Two states of an entry that differ at most in the two counters.\<close>

definition same_document :: "Taxonomy \<Rightarrow> Taxonomy \<Rightarrow> bool" where
  "same_document t t' =
     (path t' = path t \<and> rel_path t' = rel_path t \<and> message_format t' = message_format t
      \<and> parsed t' = parsed t \<and> version t' = version t)"

text \<open>The event of a run of the lint tool.\<close>

fun is_yamllint_run :: "event \<Rightarrow> bool" where
  "is_yamllint_run (Run cmd input) = (case cmd of [] \<Rightarrow> False | c # cs \<Rightarrow> c = ''yamllint'')"
| "is_yamllint_run (Print s) = False"
| "is_yamllint_run (Log lv msg args e) = False"
| "is_yamllint_run (ReadText f) = False"

text \<open>The event of a schema file read.\<close>

fun is_read :: "event \<Rightarrow> bool" where
  "is_read (ReadText f) = True"
| "is_read (Run cmd input) = False"
| "is_read (Print s) = False"
| "is_read (Log lv msg args e) = False"

text \<open>
  The text of an event, as it reaches the reader of the output or of the log, or the
  exception that rendering the log record raises.
\<close>

fun event_text :: "pystr \<Rightarrow> event \<Rightarrow> exn + string" where
  "event_text ps (Print s) = Inr s"
| "event_text ps (Log lv msg args e) = getMessage ps msg args"
| "event_text ps (Run cmd input) = Inr []"
| "event_text ps (ReadText f) = Inr []"

text \<open>What a caller reads off a returned entry: its counters, and its document.\<close>

fun counts :: "Taxonomy result \<Rightarrow> (int \<times> int) option" where
  "counts (Return t) = Some (errors t, warnings t)"
| "counts (Raise e) = None"

fun document_of :: "Taxonomy result \<Rightarrow> ((yaml \<times> yaml) list \<times> pyint) option" where
  "document_of (Return t) = Some (parsed t, version t)"
| "document_of (Raise e) = None"

text \<open>
  The specification's words for the lint findings, to compare with: the findings are
  the output lines that match the pattern; a finding is an error when its severity is
  \<open>error\<close> or the strict flag is set, and a warning otherwise.
\<close>

definition lint_findings :: "string \<Rightarrow> (string \<times> string \<times> string \<times> string) list" where
  "lint_findings stdout = List.map_filter pattern_match (splitlines stdout)"

definition lint_error :: "TaxonomyParser \<Rightarrow> string \<times> string \<times> string \<times> string \<Rightarrow> bool" where
  "lint_error p f = (yamllint_strict p \<or> fst (snd (snd f)) = ''error'')"

text \<open>The events of a call of parse.\<close>

definition events_of ::
  "Taxonomy result \<times> TaxonomyParser \<times> 'r lru \<times> event list \<Rightarrow> event list" where
  "events_of r = snd (snd (snd r))"

text \<open>
  The specification's words for the text of a diagnostic, to compare with:
  plain text \<^verbatim>\<open>ERROR: <relPath>:<line>:<col> [<path>] <message>\<close>, the annotation
  \<^verbatim>\<open>::error file=<relPath>,line=<line>,col=<col>::<line>:<col> [<path>] <message>\<close>,
  and the log record \<^verbatim>\<open><relPath>:<line>:<col> [<path>] <message>\<close>; the bracketed
  path is left out when it is empty, and a warning says \<^verbatim>\<open>WARN\<close> and
  \<^verbatim>\<open>::warning\<close>.
\<close>

definition spec_text ::
  "TaxonomyMessageFormat \<Rightarrow> level \<Rightarrow> string \<Rightarrow> string \<Rightarrow> string \<Rightarrow> string \<Rightarrow> string \<Rightarrow> string" where
  "spec_text fmt lv rp l c yaml_path m =
     (let loc = rp @ '':'' @ l @ '':'' @ c
                  @ (if yaml_path = [] then '' '' else '' ['' @ yaml_path @ ''] '') @ m
      in case fmt of
           GITHUB \<Rightarrow>
             ''::'' @ (case lv of ERROR \<Rightarrow> ''error'' | WARNING \<Rightarrow> ''warning'')
               @ '' file='' @ rp @ '',line='' @ l @ '',col='' @ c @ ''::''
               @ l @ '':'' @ c @ (if yaml_path = [] then '' '' else '' ['' @ yaml_path @ ''] '') @ m
         | LOGGING \<Rightarrow> loc
         | _ \<Rightarrow> (case lv of ERROR \<Rightarrow> ''ERROR'' | WARNING \<Rightarrow> ''WARN'') @ '': '' @ loc)"

text \<open>
  The key of a load request, and the keys that stand before a key in the cache (the
  ones used more recently).
\<close>

definition req_key :: "(string \<Rightarrow> 'r option) \<times> nat \<times> string \<Rightarrow> nat \<times> string" where
  "req_key q = snd q"

definition more_recent :: "nat \<times> string \<Rightarrow> 'r lru \<Rightarrow> (nat \<times> string) set" where
  "more_recent k c = set (takeWhile (\<lambda>x. x \<noteq> k) (map fst c))"

text \<open>
  The specification's words for version resolution, to compare with: the document's
  \<open>version\<close> when it is an integer, 1 when the key is absent, and for a value that is
  not an integer the result of a conversion to an integer, or 1 when the conversion
  fails. \<open>None\<close> stands for the values this says nothing definite about (null,
  sequences, mappings, sets, timestamps and infinite floats).
\<close>

definition spec_version :: "(yaml \<times> yaml) list \<Rightarrow> pyint option" where
  "spec_version doc =
     (case map_of doc (YStr ''version'') of
        None \<Rightarrow> Some (PInt 1)
      | Some (YInt n) \<Rightarrow> Some (PInt n)
      | Some (YBool b) \<Rightarrow> Some (PBool b)
      | Some (YStr s) \<Rightarrow> Some (PInt (case py_int_str (ustr s) of Some n \<Rightarrow> n | None \<Rightarrow> 1))
      | Some (YBytes s) \<Rightarrow> Some (PInt (case py_int_bytes s of Some n \<Rightarrow> n | None \<Rightarrow> 1))
      | Some (YFloat (Finite r)) \<Rightarrow> Some (PInt (py_trunc r))
      | Some (YFloat NaN) \<Rightarrow> Some (PInt 1)
      | Some v \<Rightarrow> None)"

subsection \<open>Concrete inputs\<close>

text \<open>
  An interpreter whose texts are fixed words. The formats of the examples below are
  all plain, so its third function is never consulted.
\<close>

definition pystr_example :: pystr where
  "pystr_example =
     \<lparr> str_exn = (\<lambda>e. ''exception''), str_value = (\<lambda>v. ''value''),
       format_other = (\<lambda>m a. Inr ''formatted'') \<rparr>"

definition process_example :: process where
  "process_example = \<lparr> cwd = [''/'', ''work''], environ = [''HOME''] \<rparr>"

definition qna_path_example :: "string list" where
  "qna_path_example = [''/'', ''work'', ''compositional_skills'', ''x'', ''qna.yaml'']"

definition entry_example :: Taxonomy where
  "entry_example =
     Taxonomy_init process_example [''compositional_skills'', ''x'', ''qna.yaml'']
       qna_path_example STANDARD"

definition parser_example :: TaxonomyParser where
  "parser_example =
     \<lparr> ident = 0, taxonomy_folders = DEFAULT_TAXONOMY_FOLDERS, schema_version = 0,
       yamllint_config = DEFAULT_YAMLLINT_CONFIG, yamllint_strict = False,
       p_message_format = STANDARD, yq_available = True \<rparr>"

definition violation_percent :: ValidationError where
  "violation_percent =
     \<lparr> validator = ''maxLength'', validator_value = YInt 3,
       ve_message = '''100%' is too long'', json_path = ''$.seed_examples[0].answer'' \<rparr>"

definition violation_example :: ValidationError where
  "violation_example =
     \<lparr> validator = ''minItems'', validator_value = YInt 5,
       ve_message = ''[] is too short'', json_path = ''$.seed_examples'' \<rparr>"

text \<open>
  A world in which every path is a file whose text decodes to \<open>doc\<close>, the lint tool
  reports one long line, the path query answers line 7, the only schema file is
  \<^verbatim>\<open>v3/compositional_skills.json\<close> and the engine finds one violation.
\<close>

definition env_doc :: "yaml \<Rightarrow> nat env" where
  "env_doc doc =
     \<lparr> proc = process_example,
       strs = pystr_example,
       isfile = (\<lambda>p. True),
       read_text = (\<lambda>p. Inr ''text''),
       safe_load = (\<lambda>s. Inr doc),
       subprocess_run = (\<lambda>argv input.
         Inr ''stdin:3:121: [warning] line too long (130 > 120 characters) (line-length)''),
       check_output = (\<lambda>argv input. Inr ''7''),
       schema_files = (\<lambda>f. if f = ''v3/compositional_skills.json'' then Some 3 else None),
       iter_errors = (\<lambda>r m. ([violation_example], None)) \<rparr>"

text \<open>
  Schema files that all exist (the resource of a file is the length of its name), and
  128 loads by one parser of 128 different files.
\<close>

definition files_all :: "string \<Rightarrow> nat option" where
  "files_all f = Some (length f)"

definition files_none :: "string \<Rightarrow> nat option" where
  "files_none f = None"

definition other_loads :: "((string \<Rightarrow> nat option) \<times> nat \<times> string) list" where
  "other_loads = map (\<lambda>n. (files_all, 0, replicate n CHR ''x'')) [1..<129]"

section \<open>Properties\<close>

subsection \<open>Version discovery\<close>

lemma filter_Cons_holds: "filter P xs = z # zs \<Longrightarrow> P z \<and> z \<in> set xs"
  by (induction xs) (auto split: if_splits)

lemma decimal_value_Some:
  "decimal_value c = Some d \<Longrightarrow> \<exists>z\<in>set decimal_zeros. z \<le> c \<and> c < z + 10 \<and> d = c - z"
  unfolding decimal_value_def
  by (auto split: list.splits dest: filter_Cons_holds)

lemma decimal_zeros_ascii: "z \<in> set decimal_zeros \<Longrightarrow> z < 127 \<Longrightarrow> z = 48"
  by (auto simp: decimal_zeros_def)

lemma decimal_value_ascii:
  assumes "decimal_value c = Some d" "c < 127"
  shows "48 \<le> c \<and> c \<le> 57 \<and> d = c - 48"
proof -
  from decimal_value_Some [OF assms(1)] obtain z where
    z: "z \<in> set decimal_zeros" "z \<le> c" "c < z + 10" "d = c - z"
    by blast
  from z(1,2) assms(2) have "z = 48" by (intro decimal_zeros_ascii) simp_all
  with z show ?thesis by simp
qed

lemma decimal_space_disjoint:
  "list_all (\<lambda>z. list_all (\<lambda>r. snd r < z \<or> z + 10 \<le> fst r) space_ranges) decimal_zeros"
  by (simp add: decimal_zeros_def space_ranges_def)

lemma decimal_not_space:
  assumes "decimal_value c = Some d"
  shows "\<not> in_ranges space_ranges c"
proof
  assume "in_ranges space_ranges c"
  then obtain r where r: "r \<in> set space_ranges" "fst r \<le> c" "c \<le> snd r"
    by (auto simp: in_ranges_def list_ex_iff)
  from decimal_value_Some [OF assms] obtain z where
    z: "z \<in> set decimal_zeros" "z \<le> c" "c < z + 10"
    by blast
  from decimal_space_disjoint z(1) r(1) have "snd r < z \<or> z + 10 \<le> fst r"
    by (simp add: list_all_iff)
  with r z show False by linarith
qed

lemma int_ascii_decimal:
  assumes "decimal_value c = Some d"
  shows "int_ascii c = 48 + d" and "0 \<le> d \<and> d < 10"
proof -
  from decimal_value_Some [OF assms] show "0 \<le> d \<and> d < 10" by auto
  show "int_ascii c = 48 + d"
  proof (cases "c < 127")
    case True
    from decimal_value_ascii [OF assms True] True show ?thesis
      by (simp add: int_ascii_def)
  next
    case False
    with decimal_not_space [OF assms] assms show ?thesis
      by (simp add: int_ascii_def)
  qed
qed

lemma parse_digits_values:
  "list_all (\<lambda>d. 0 \<le> d \<and> d < 10) xs \<Longrightarrow> prev \<or> xs \<noteq> []
     \<Longrightarrow> parse_digits acc prev (map (\<lambda>d. 48 + d) xs) = Some (foldl (\<lambda>a d. 10 * a + d) acc xs)"
  by (induction xs arbitrary: acc prev) (auto simp: is_ascii_digit_def)

lemma literal_of_values:
  assumes "xs \<noteq> []" "list_all (\<lambda>d. 0 \<le> d \<and> d < 10) xs" "length xs \<le> int_max_str_digits"
  shows "py_int_literal (map (\<lambda>d. 48 + d) xs) = Some (foldl (\<lambda>a d. 10 * a + d) 0 xs)"
proof -
  let ?s = "map (\<lambda>d. 48 + d) xs"
  have dg: "list_all is_ascii_digit ?s"
    using assms(2) by (auto simp: list_all_iff is_ascii_digit_def)
  then have ns: "list_all (\<lambda>c. \<not> is_int_space c) ?s"
    by (auto simp: list_all_iff is_ascii_digit_def is_int_space_def)
  from assms(1) obtain c cs where s: "?s = c # cs" by (cases ?s) auto
  have 1: "dropWhile is_int_space ?s = ?s"
    using ns by (cases ?s) auto
  have "list_all (\<lambda>c. \<not> is_int_space c) (rev ?s)" using ns by (simp add: list_all_iff)
  then have 2: "dropWhile is_int_space (rev ?s) = rev ?s"
    by (cases "rev ?s") auto
  have st: "rev (dropWhile is_int_space (rev (dropWhile is_int_space ?s))) = ?s"
    by (simp only: 1 2 rev_rev_ident)
  have c: "c \<noteq> 43" "c \<noteq> 45"
    using dg s by (auto simp: is_ascii_digit_def)
  have "filter is_ascii_digit ?s = ?s" using dg by (simp add: list_all_iff)
  then have "length (filter is_ascii_digit ?s) \<le> int_max_str_digits"
    using assms(3) by simp
  then have "parse_capped ?s = parse_digits 0 False ?s"
    by (simp add: parse_capped_def)
  also have "\<dots> = Some (foldl (\<lambda>a d. 10 * a + d) 0 xs)"
    using assms(1,2) by (intro parse_digits_values) simp_all
  finally have pc: "parse_capped (c # cs) = Some (foldl (\<lambda>a d. 10 * a + d) 0 xs)"
    by (simp only: s)
  have "py_int_literal ?s
          = (case ?s of
               [] \<Rightarrow> None
             | c # cs \<Rightarrow>
                 if c = 43 then parse_capped cs
                 else if c = 45 then map_option uminus (parse_capped cs)
                 else parse_capped (c # cs))"
    by (simp only: py_int_literal_def st)
  then have "py_int_literal ?s = parse_capped (c # cs)"
    unfolding s using c by simp
  with pc show ?thesis by simp
qed

lemma py_int_str_decimal:
  assumes "ds \<noteq> []" "list_all is_decimal ds" "length ds \<le> int_max_str_digits"
  shows "py_int_str ds = Some (decimal ds)"
proof -
  let ?v = "\<lambda>c. case decimal_value c of Some d \<Rightarrow> d | None \<Rightarrow> 0"
  have m: "map int_ascii ds = map (\<lambda>d. 48 + d) (map ?v ds)"
    using assms(2) by (auto simp: list_all_iff is_decimal_def int_ascii_decimal(1))
  have b: "list_all (\<lambda>d. 0 \<le> d \<and> d < 10) (map ?v ds)"
    using assms(2) by (auto simp: list_all_iff is_decimal_def int_ascii_decimal(2))
  have "py_int_literal (map (\<lambda>d. 48 + d) (map ?v ds))
          = Some (foldl (\<lambda>a d. 10 * a + d) 0 (map ?v ds))"
    using assms(1,3) b by (intro literal_of_values) simp_all
  moreover have "foldl (\<lambda>a d. 10 * a + d) 0 (map ?v ds) = decimal ds"
    by (simp add: decimal_def foldl_map)
  ultimately show ?thesis by (simp add: py_int_str_def m)
qed

lemma decimal_is_digit: "is_decimal c \<Longrightarrow> is_digit c"
  by (simp add: is_decimal_def is_digit_def)

lemma spec_version_name_key:
  "spec_version_name n \<Longrightarrow> length (tl n) \<le> int_max_str_digits
     \<Longrightarrow> py_int_str (tl n) = Some (spec_version_number n)"
  by (cases n) (auto simp: spec_version_name_def spec_version_number_def
      intro: py_int_str_decimal)

text \<open>
  The names the filter of \<^verbatim>\<open>schema_versions\<close> selects, and the listings in which
  every selected name has only decimal digits, no more of them than \<^verbatim>\<open>int\<close> reads.
\<close>

lemma is_version_entry_selected:
  "is_version_entry n = Inr b \<Longrightarrow> b = (\<exists>ds. n = of_char CHR ''v'' # ds \<and> isdigit ds)"
  by (cases n) (auto simp: is_version_entry_def)

lemma is_version_entry_spec:
  assumes "n \<noteq> []"
    and "(\<exists>ds. n = of_char CHR ''v'' # ds \<and> isdigit ds) \<longrightarrow> spec_version_name n"
  shows "is_version_entry n = Inr (spec_version_name n)"
proof -
  from assms(1) obtain c cs where n: "n = c # cs" by (cases n) auto
  have "spec_version_name n \<Longrightarrow> c = of_char CHR ''v'' \<and> isdigit cs"
    by (auto simp: n spec_version_name_def isdigit_def list_all_iff decimal_is_digit)
  with assms(2) show ?thesis
    by (auto simp: n is_version_entry_def)
qed

lemma version_entries_filter:
  "[] \<notin> set entries
   \<Longrightarrow> \<forall>n\<in>set entries. (\<exists>ds. n = of_char CHR ''v'' # ds \<and> isdigit ds) \<longrightarrow> spec_version_name n
   \<Longrightarrow> version_entries entries = Inr (filter spec_version_name entries)"
  by (induction entries) (auto simp: is_version_entry_spec)

lemma version_keys_map:
  "list_all (\<lambda>n. spec_version_name n \<and> length (tl n) \<le> int_max_str_digits) vs
     \<Longrightarrow> version_keys vs = Inr (map (\<lambda>n. (spec_version_number n, n)) vs)"
  by (induction vs) (auto simp: spec_version_name_key)

lemma sorted_le_last: "sorted xs \<Longrightarrow> y \<in> set xs \<Longrightarrow> y \<le> last xs"
  by (induction xs) auto

lemma sorted_last_is_Max:
  fixes xs :: "int list"
  assumes "sorted xs" "xs \<noteq> []"
  shows "last xs = Max (set xs)"
proof -
  have "Max (set xs) = last xs"
    using assms by (intro Max_eqI) (auto simp: sorted_le_last)
  then show ?thesis by simp
qed

lemma sort_key_decorated_aux:
  "sort_key fst (map (\<lambda>n. (f n, n)) xs) = map (\<lambda>n. (f n, n)) (sort_key f xs)"
proof (induction xs)
  case Nil
  then show ?case by simp
next
  case (Cons x xs)
  have "insort_key fst (f x, x) (map (\<lambda>n. (f n, n)) ys) = map (\<lambda>n. (f n, n)) (insort_key f x ys)"
    for ys by (induction ys) auto
  with Cons show ?case by simp
qed

lemma sort_key_decorated:
  "map snd (sort_key fst (map (\<lambda>n. (f n, n)) xs)) = sort_key f xs"
  by (simp add: sort_key_decorated_aux comp_def)

lemma schema_versions_sorted_filter:
  assumes "[] \<notin> set entries"
    and "\<forall>n\<in>set entries. (\<exists>ds. n = of_char CHR ''v'' # ds \<and> isdigit ds)
           \<longrightarrow> spec_version_name n \<and> length (tl n) \<le> int_max_str_digits"
  shows "schema_versions entries
           = Inr (sort_key spec_version_number (filter spec_version_name entries))"
proof -
  have sel: "\<forall>n\<in>set entries. (\<exists>ds. n = of_char CHR ''v'' # ds \<and> isdigit ds) \<longrightarrow> spec_version_name n"
    using assms(2) by blast
  have "spec_version_name n \<Longrightarrow> \<exists>ds. n = of_char CHR ''v'' # ds \<and> isdigit ds" for n
    by (cases n) (auto simp: spec_version_name_def isdigit_def list_all_iff decimal_is_digit)
  with assms(2)
  have "list_all (\<lambda>n. spec_version_name n \<and> length (tl n) \<le> int_max_str_digits)
          (filter spec_version_name entries)"
    by (auto simp: list_all_iff)
  then have "version_keys (filter spec_version_name entries)
               = Inr (map (\<lambda>n. (spec_version_number n, n)) (filter spec_version_name entries))"
    by (rule version_keys_map)
  then show ?thesis
    using version_entries_filter [OF assms(1) sel]
    by (simp add: schema_versions_def sort_key_decorated)
qed

text \<open>
  When no listed name is empty and every name the filter selects has only decimal
  digits after the \<open>v\<close>, no more of them than \<^verbatim>\<open>int\<close> reads, version discovery
  returns exactly the listed names that are \<open>v\<close> followed by one or more digits,
  each as often as it is listed, in ascending order of the integer value of their
  digits, names of equal value in listing order; and a parser made without a schema
  version gets the integer of the last name of that list, which is the greatest
  version number, or raises \<^verbatim>\<open>TaxonomyReadingException\<close> when the list is empty.
\<close>

lemma decimal_names_discovery:
  assumes "[] \<notin> set entries"
    and "\<forall>n\<in>set entries. (\<exists>ds. n = of_char CHR ''v'' # ds \<and> isdigit ds)
           \<longrightarrow> spec_version_name n \<and> length (tl n) \<le> int_max_str_digits"
  shows "\<exists>vs. schema_versions entries = Inr vs
           \<and> mset vs = mset (filter spec_version_name entries)
           \<and> set vs = {n \<in> set entries. spec_version_name n}
           \<and> sorted (map spec_version_number vs)
           \<and> (\<forall>k. filter (\<lambda>n. spec_version_number n = k) vs
                  = filter (\<lambda>n. spec_version_number n = k) (filter spec_version_name entries))
           \<and> (vs \<noteq> [] \<longrightarrow>
                spec_version_number (last vs) = Max (spec_version_number ` set vs)
                \<and> TaxonomyParser_init i entries None None None strict None
                    = Inr \<lparr> ident = i, taxonomy_folders = DEFAULT_TAXONOMY_FOLDERS,
                            schema_version = spec_version_number (last vs),
                            yamllint_config = DEFAULT_YAMLLINT_CONFIG,
                            yamllint_strict = strict, p_message_format = AUTO,
                            yq_available = True \<rparr>)
           \<and> (vs = [] \<longrightarrow>
                TaxonomyParser_init i entries None None None strict None
                  = Inl (TaxonomyReadingException None))"
proof -
  define vs where "vs = sort_key spec_version_number (filter spec_version_name entries)"
  have sv: "schema_versions entries = Inr vs"
    using assms by (simp add: vs_def schema_versions_sorted_filter)
  have m: "mset vs = mset (filter spec_version_name entries)"
    by (simp add: vs_def)
  have s: "set vs = {n \<in> set entries. spec_version_name n}"
    by (auto simp: vs_def)
  have so: "sorted (map spec_version_number vs)"
    by (simp add: vs_def sorted_sort_key)
  have st: "filter (\<lambda>n. spec_version_number n = k) vs
              = filter (\<lambda>n. spec_version_number n = k) (filter spec_version_name entries)" for k
    unfolding vs_def by (rule sort_key_stable)
  have d: "spec_version_number (last vs) = Max (spec_version_number ` set vs)
             \<and> TaxonomyParser_init i entries None None None strict None
                    = Inr \<lparr> ident = i, taxonomy_folders = DEFAULT_TAXONOMY_FOLDERS,
                            schema_version = spec_version_number (last vs),
                            yamllint_config = DEFAULT_YAMLLINT_CONFIG,
                            yamllint_strict = strict, p_message_format = AUTO,
                            yq_available = True \<rparr>"
    if ne: "vs \<noteq> []"
  proof -
    have l: "last vs \<in> set vs" using ne by simp
    then have n: "spec_version_name (last vs)" and e: "last vs \<in> set entries"
      using s by simp_all
    have "\<exists>ds. last vs = of_char CHR ''v'' # ds \<and> isdigit ds"
      using n by (cases "last vs")
        (auto simp: spec_version_name_def isdigit_def list_all_iff decimal_is_digit)
    with assms(2) e have "length (tl (last vs)) \<le> int_max_str_digits" by blast
    with n have k: "py_int_str (tl (last vs)) = Some (spec_version_number (last vs))"
      by (rule spec_version_name_key)
    have "last (map spec_version_number vs) = Max (set (map spec_version_number vs))"
      using so ne by (intro sorted_last_is_Max) auto
    then have mx: "spec_version_number (last vs) = Max (spec_version_number ` set vs)"
      using ne by (simp add: last_map)
    have "default_schema_version entries = Inr (spec_version_number (last vs))"
      using ne k by (simp add: default_schema_version_def sv)
    with mx show ?thesis by (simp add: TaxonomyParser_init_def)
  qed
  have e: "TaxonomyParser_init i entries None None None strict None
             = Inl (TaxonomyReadingException None)" if "vs = []"
    using that by (simp add: TaxonomyParser_init_def default_schema_version_def sv)
  show ?thesis
    using sv m s so st d e by blast
qed

lemma decimal_names_discovery_witness:
  "[] \<notin> set listing_example
   \<and> schema_versions listing_example = Inr (map ustr [''v2'', ''v9'', ''v10''])
   \<and> filter spec_version_name listing_example = map ustr [''v10'', ''v9'', ''v2'']
   \<and> TaxonomyParser_init 7 listing_example None None None False None
       = Inr \<lparr> ident = 7, taxonomy_folders = DEFAULT_TAXONOMY_FOLDERS, schema_version = 10,
               yamllint_config = DEFAULT_YAMLLINT_CONFIG, yamllint_strict = False,
               p_message_format = AUTO, yq_available = True \<rparr>"
proof -
  have h: "[] \<notin> set listing_example" by code_simp
  have f: "filter spec_version_name listing_example = map ustr [''v10'', ''v9'', ''v2'']"
    by code_simp
  have g: "list_all (\<lambda>n. (case n of [] \<Rightarrow> False | c # ds \<Rightarrow> c = of_char CHR ''v'' \<and> isdigit ds)
                       \<longrightarrow> spec_version_name n \<and> length (tl n) \<le> int_max_str_digits)
             listing_example"
    by code_simp
  have a: "\<forall>n\<in>set listing_example. (\<exists>ds. n = of_char CHR ''v'' # ds \<and> isdigit ds)
             \<longrightarrow> spec_version_name n \<and> length (tl n) \<le> int_max_str_digits"
  proof (intro ballI impI)
    fix n assume n: "n \<in> set listing_example"
      and "\<exists>ds. n = of_char CHR ''v'' # ds \<and> isdigit ds"
    then have "case n of [] \<Rightarrow> False | c # ds \<Rightarrow> c = of_char CHR ''v'' \<and> isdigit ds"
      by auto
    with g n show "spec_version_name n \<and> length (tl n) \<le> int_max_str_digits"
      by (auto simp: list_all_iff)
  qed
  have n: "spec_version_number (ustr ''v10'') = 10" by code_simp
  from decimal_names_discovery [OF h a, of 7 False] obtain vs where
    sv: "schema_versions listing_example = Inr vs"
    and d: "vs \<noteq> [] \<longrightarrow> TaxonomyParser_init 7 listing_example None None None False None
              = Inr \<lparr> ident = 7, taxonomy_folders = DEFAULT_TAXONOMY_FOLDERS,
                      schema_version = spec_version_number (last vs),
                      yamllint_config = DEFAULT_YAMLLINT_CONFIG, yamllint_strict = False,
                      p_message_format = AUTO, yq_available = True \<rparr>"
    by blast
  have c: "schema_versions listing_example = Inr (map ustr [''v2'', ''v9'', ''v10''])"
    by code_simp
  with sv have vs: "vs = map ustr [''v2'', ''v9'', ''v10'']" by simp
  then have "vs \<noteq> []" "last vs = ustr ''v10''" by simp_all
  with d n have "TaxonomyParser_init 7 listing_example None None None False None
       = Inr \<lparr> ident = 7, taxonomy_folders = DEFAULT_TAXONOMY_FOLDERS, schema_version = 10,
               yamllint_config = DEFAULT_YAMLLINT_CONFIG, yamllint_strict = False,
               p_message_format = AUTO, yq_available = True \<rparr>"
    by simp
  with h c f show ?thesis by simp
qed

text \<open>
  A decimal digit of another script counts: a directory named \<open>v\<close> and
  ARABIC-INDIC DIGIT THREE (U+0663) is version 3.
\<close>

lemma arabic_indic_version_name:
  "schema_versions (listing_example @ [[of_char CHR ''v'', 0x663]])
     = Inr [ustr ''v2'', [of_char CHR ''v'', 0x663], ustr ''v9'', ustr ''v10'']"
  by code_simp

text \<open>
  Claim C8 fails on the code for a directory whose name is \<open>v\<close> followed by a digit
  that is not decimal. The listing of the example gives the versions 2, 9 and 10 in
  this order, and the default version 10. With one more directory, named \<open>v\<close> and
  SUPERSCRIPT TWO, the filter selects the new name, since \<^verbatim>\<open>str.isdigit\<close> accepts
  the character, and \<^verbatim>\<open>int\<close> refuses it in the sort key: version discovery raises
  \<^verbatim>\<open>ValueError\<close> instead of returning a list, and so does the making of a parser
  without a schema version.
\<close>

theorem superscript_two_version_name:
  "schema_versions listing_example = Inr (map ustr [''v2'', ''v9'', ''v10''])
   \<and> TaxonomyParser_init 7 listing_example None None None False None
       = Inr \<lparr> ident = 7, taxonomy_folders = DEFAULT_TAXONOMY_FOLDERS, schema_version = 10,
               yamllint_config = DEFAULT_YAMLLINT_CONFIG, yamllint_strict = False,
               p_message_format = AUTO, yq_available = True \<rparr>
   \<and> is_version_entry [of_char CHR ''v'', 0xB2] = Inr True
   \<and> py_int_str [0xB2] = None
   \<and> schema_versions listing_superscript = Inl ValueError
   \<and> TaxonomyParser_init 7 listing_superscript None None None False None = Inl ValueError"
  by code_simp

subsection \<open>The diagnostic sink\<close>

lemma emit_cases:
  "emit ps std gh lv self message message_args line col yaml_path = Inl e
     \<Longrightarrow> message_format self \<noteq> LOGGING \<and> message_args \<noteq> []
         \<and> py_format ps message message_args = Inl e"
  by (cases "message_format self")
     (auto simp: emit_def Let_def split: sum.splits if_splits)

lemma emit_returns:
  "message_format self = LOGGING \<or> message_args = []
     \<or> py_format ps message message_args = Inr m
   \<Longrightarrow> \<exists>ev. emit ps std gh lv self message message_args line col yaml_path = Inr ev"
  by (cases "message_format self")
     (auto simp: emit_def Let_def split: sum.splits if_splits)

lemma emit_raises:
  "message_format self \<noteq> LOGGING \<Longrightarrow> message_args \<noteq> []
     \<Longrightarrow> py_format ps message message_args = Inl e
     \<Longrightarrow> emit ps std gh lv self message message_args line col yaml_path = Inl e"
  by (cases "message_format self") (simp_all add: emit_def Let_def)

lemma error_state:
  "fst (snd (error ps self message message_args line col yaml_path))
     = self\<lparr>errors := errors self + 1\<rparr>"
  by (simp add: error_def Let_def split: sum.splits)

lemma warning_state:
  "fst (snd (warning ps self message message_args line col yaml_path))
     = self\<lparr>warnings := warnings self + 1\<rparr>"
  by (simp add: warning_def Let_def split: sum.splits)

lemma error_result:
  "fst (error ps self message message_args line col yaml_path)
     = Return (self\<lparr>errors := errors self + 1\<rparr>)
   \<or> (\<exists>e. fst (error ps self message message_args line col yaml_path) = Raise e
          \<and> message_format self \<noteq> LOGGING \<and> message_args \<noteq> []
          \<and> py_format ps message message_args = Inl e)"
proof (cases "emit ps ''ERROR'' ''error'' ERROR (self\<lparr>errors := errors self + 1\<rparr>)
                message message_args line col yaml_path")
  case (Inl e)
  from emit_cases [OF Inl] show ?thesis
    by (simp add: error_def Let_def Inl)
next
  case (Inr ev)
  then show ?thesis by (simp add: error_def Let_def)
qed

lemma warning_result:
  "fst (warning ps self message message_args line col yaml_path)
     = Return (self\<lparr>warnings := warnings self + 1\<rparr>)
   \<or> (\<exists>e. fst (warning ps self message message_args line col yaml_path) = Raise e
          \<and> message_format self \<noteq> LOGGING \<and> message_args \<noteq> []
          \<and> py_format ps message message_args = Inl e)"
proof (cases "emit ps ''WARN'' ''warning'' WARNING (self\<lparr>warnings := warnings self + 1\<rparr>)
                message message_args line col yaml_path")
  case (Inl e)
  from emit_cases [OF Inl] show ?thesis
    by (simp add: warning_def Let_def Inl)
next
  case (Inr ev)
  then show ?thesis by (simp add: warning_def Let_def)
qed

lemma error_misfit:
  assumes "message_format self \<noteq> LOGGING" "message_args \<noteq> []"
    "py_format ps message message_args = Inl e"
  shows "error ps self message message_args line col yaml_path
           = (Raise e, self\<lparr>errors := errors self + 1\<rparr>, [])"
proof -
  have "emit ps ''ERROR'' ''error'' ERROR (self\<lparr>errors := errors self + 1\<rparr>)
          message message_args line col yaml_path = Inl e"
    using assms by (intro emit_raises) simp_all
  then show ?thesis by (simp add: error_def Let_def)
qed

lemma warning_misfit:
  assumes "message_format self \<noteq> LOGGING" "message_args \<noteq> []"
    "py_format ps message message_args = Inl e"
  shows "warning ps self message message_args line col yaml_path
           = (Raise e, self\<lparr>warnings := warnings self + 1\<rparr>, [])"
proof -
  have "emit ps ''WARN'' ''warning'' WARNING (self\<lparr>warnings := warnings self + 1\<rparr>)
          message message_args line col yaml_path = Inl e"
    using assms by (intro emit_raises) simp_all
  then show ?thesis by (simp add: warning_def Let_def)
qed

text \<open>
  Claim C9, as the code has it. Every call of \<open>error\<close> leaves the entry with its
  error counter increased by exactly one and every other field (warning counter,
  path, rel_path, message_format, parsed, version) unchanged, also when the call
  raises. The call returns the entry itself exactly when the message can be
  formatted: always in the logging format, always without message arguments, and
  otherwise when \<open>message % message_args\<close> succeeds. In the other two formats a
  message that does not fit its arguments makes the call raise, with the exception
  of that formatting and with nothing printed, and a call raises in no other case.
  \<open>warning\<close> is the same for the warning counter.
\<close>

theorem error_warning_frame:
  fixes ps self message message_args line col yaml_path
  shows
  "(let r = error ps self message message_args line col yaml_path; self' = fst (snd r) in
      errors self' = errors self + 1 \<and> warnings self' = warnings self
      \<and> path self' = path self \<and> rel_path self' = rel_path self
      \<and> message_format self' = message_format self
      \<and> parsed self' = parsed self \<and> version self' = version self
      \<and> ((fst r = Return self')
           = (message_format self = LOGGING \<or> message_args = []
              \<or> (\<exists>m. py_format ps message message_args = Inr m)))
      \<and> (\<forall>e. (fst r = Raise e)
             = (message_format self \<noteq> LOGGING \<and> message_args \<noteq> []
                \<and> py_format ps message message_args = Inl e))
      \<and> (\<forall>e. fst r = Raise e \<longrightarrow> snd (snd r) = []))
   \<and> (let r = warning ps self message message_args line col yaml_path; self' = fst (snd r) in
      warnings self' = warnings self + 1 \<and> errors self' = errors self
      \<and> path self' = path self \<and> rel_path self' = rel_path self
      \<and> message_format self' = message_format self
      \<and> parsed self' = parsed self \<and> version self' = version self
      \<and> ((fst r = Return self')
           = (message_format self = LOGGING \<or> message_args = []
              \<or> (\<exists>m. py_format ps message message_args = Inr m)))
      \<and> (\<forall>e. (fst r = Raise e)
             = (message_format self \<noteq> LOGGING \<and> message_args \<noteq> []
                \<and> py_format ps message message_args = Inl e))
      \<and> (\<forall>e. fst r = Raise e \<longrightarrow> snd (snd r) = []))"
proof -
  let ?fmt = "py_format ps message message_args"
  let ?ok = "message_format self = LOGGING \<or> message_args = [] \<or> (\<exists>m. ?fmt = Inr m)"
  let ?bad = "\<lambda>x. message_format self \<noteq> LOGGING \<and> message_args \<noteq> [] \<and> ?fmt = Inl x"
  let ?e = "error ps self message message_args line col yaml_path"
  let ?w = "warning ps self message message_args line col yaml_path"
  have ex: "?ok \<or> (\<exists>x. ?bad x)" by (cases ?fmt) auto
  have e: "?ok \<longrightarrow> fst ?e = Return (self\<lparr>errors := errors self + 1\<rparr>)"
    using error_result [of ps self message message_args line col yaml_path] by auto
  have w: "?ok \<longrightarrow> fst ?w = Return (self\<lparr>warnings := warnings self + 1\<rparr>)"
    using warning_result [of ps self message message_args line col yaml_path] by auto
  have be: "?bad x \<longrightarrow> fst ?e = Raise x \<and> snd (snd ?e) = []" for x
    using error_misfit [of self message_args ps message x line col yaml_path] by auto
  have bw: "?bad x \<longrightarrow> fst ?w = Raise x \<and> snd (snd ?w) = []" for x
    using warning_misfit [of self message_args ps message x line col yaml_path] by auto
  have se: "fst (snd ?e) = self\<lparr>errors := errors self + 1\<rparr>" by (rule error_state)
  have sw: "fst (snd ?w) = self\<lparr>warnings := warnings self + 1\<rparr>" by (rule warning_state)
  have fe: "errors (fst (snd ?e)) = errors self + 1 \<and> warnings (fst (snd ?e)) = warnings self
      \<and> path (fst (snd ?e)) = path self \<and> rel_path (fst (snd ?e)) = rel_path self
      \<and> message_format (fst (snd ?e)) = message_format self
      \<and> parsed (fst (snd ?e)) = parsed self \<and> version (fst (snd ?e)) = version self"
    by (simp add: se)
  have fw: "warnings (fst (snd ?w)) = warnings self + 1 \<and> errors (fst (snd ?w)) = errors self
      \<and> path (fst (snd ?w)) = path self \<and> rel_path (fst (snd ?w)) = rel_path self
      \<and> message_format (fst (snd ?w)) = message_format self
      \<and> parsed (fst (snd ?w)) = parsed self \<and> version (fst (snd ?w)) = version self"
    by (simp add: sw)
  from e se have re: "?ok \<longrightarrow> fst ?e = Return (fst (snd ?e))" by (simp only:)
  from w sw have rw: "?ok \<longrightarrow> fst ?w = Return (fst (snd ?w))" by (simp only:)
  have re_iff: "(fst ?e = Return (fst (snd ?e))) = ?ok"
    using re be ex by (metis result.distinct(1))
  have rw_iff: "(fst ?w = Return (fst (snd ?w))) = ?ok"
    using rw bw ex by (metis result.distinct(1))
  have xe_iff: "(fst ?e = Raise x) = ?bad x" for x
  proof
    assume r: "fst ?e = Raise x"
    then have "\<not> ?ok" using re by auto
    with ex obtain y where y: "?bad y" by blast
    with be have "fst ?e = Raise y" by blast
    with r y show "?bad x" by simp
  next
    assume "?bad x" with be show "fst ?e = Raise x" by blast
  qed
  have xw_iff: "(fst ?w = Raise x) = ?bad x" for x
  proof
    assume r: "fst ?w = Raise x"
    then have "\<not> ?ok" using rw by auto
    with ex obtain y where y: "?bad y" by blast
    with bw have "fst ?w = Raise y" by blast
    with r y show "?bad x" by simp
  next
    assume "?bad x" with bw show "fst ?w = Raise x" by blast
  qed
  have ne: "fst ?e = Raise x \<longrightarrow> snd (snd ?e) = []" for x
    using xe_iff [of x] be [of x] by blast
  have nw: "fst ?w = Raise x \<longrightarrow> snd (snd ?w) = []" for x
    using xw_iff [of x] bw [of x] by blast
  show ?thesis
    unfolding Let_def
    using fe fw re_iff rw_iff xe_iff xw_iff ne nw by blast
qed

theorem error_warning_frame_witness:
  "fst (error pystr_example entry_example ''Value must have at least %s items''
          [OVal (YInt 5)] (LInt 3) (LInt 1) ''.seed_examples'')
     = Return (entry_example\<lparr>errors := 1\<rparr>)
   \<and> errors (fst (snd (error pystr_example entry_example ''Value must have at least %s items''
          [OVal (YInt 5)] (LInt 3) (LInt 1) ''.seed_examples''))) = 1
   \<and> fst (warning pystr_example entry_example ''The file is empty'' [] (LInt 1) (LInt 1) [])
     = Return (entry_example\<lparr>warnings := 1\<rparr>)
   \<and> error pystr_example entry_example ''%s has %s items'' [OVal (YInt 5)]
        (LInt 3) (LInt 1) ''.seed_examples''
     = (Raise TypeError, entry_example\<lparr>errors := 1\<rparr>, [])"
proof -
  have f: "py_format pystr_example ''Value must have at least %s items'' [OVal (YInt 5)]
           = Inr (''Value must have at least '' @ str_int 5 @ '' items'')"
    by (simp add: py_format_def)
  have g: "py_format pystr_example ''%s has %s items'' [OVal (YInt 5)] = Inl TypeError"
    by (simp add: py_format_def)
  have z: "errors entry_example = 0" "warnings entry_example = 0"
    "message_format entry_example \<noteq> LOGGING"
    by (simp_all add: entry_example_def Taxonomy_init_def)
  have 1: "fst (error pystr_example entry_example ''Value must have at least %s items''
          [OVal (YInt 5)] (LInt 3) (LInt 1) ''.seed_examples'')
     = Return (entry_example\<lparr>errors := 1\<rparr>)
   \<and> errors (fst (snd (error pystr_example entry_example ''Value must have at least %s items''
          [OVal (YInt 5)] (LInt 3) (LInt 1) ''.seed_examples''))) = 1"
    using error_warning_frame [of pystr_example entry_example
        "''Value must have at least %s items''" "[OVal (YInt 5)]" "LInt 3" "LInt 1"
        "''.seed_examples''"] f z
    unfolding Let_def error_state warning_state
    by simp
  have 2: "fst (warning pystr_example entry_example ''The file is empty'' [] (LInt 1) (LInt 1) [])
     = Return (entry_example\<lparr>warnings := 1\<rparr>)"
    using error_warning_frame [of pystr_example entry_example
        "''The file is empty''" "[]" "LInt 1" "LInt 1" "[]"] z
    unfolding Let_def error_state warning_state
    by simp
  let ?r = "error pystr_example entry_example ''%s has %s items'' [OVal (YInt 5)]
              (LInt 3) (LInt 1) ''.seed_examples''"
  have "fst ?r = Raise TypeError \<and> snd (snd ?r) = []"
    using error_warning_frame [of pystr_example entry_example
        "''%s has %s items''" "[OVal (YInt 5)]" "LInt 3" "LInt 1" "''.seed_examples''"] g z
    unfolding Let_def error_state warning_state
    by simp
  moreover have "fst (snd ?r) = entry_example\<lparr>errors := 1\<rparr>"
    by (simp add: error_state z)
  ultimately have 3: "?r = (Raise TypeError, entry_example\<lparr>errors := 1\<rparr>, [])"
    by (metis prod.collapse)
  from 1 2 3 show ?thesis by simp
qed

text \<open>
  The claim as stated fails: in the standard format, a message with two \<open>%s\<close> and
  one argument makes the call raise \<^verbatim>\<open>TypeError\<close> after the counter was
  incremented, so the call does not return the entry.
\<close>

theorem error_raises_counterexample:
  "fst (error pystr_example entry_example ''%s and %s'' [OStr ''a''] (LInt 1) (LInt 1) [])
     = Raise TypeError
   \<and> errors (fst (snd (error pystr_example entry_example ''%s and %s'' [OStr ''a'']
          (LInt 1) (LInt 1) []))) = errors entry_example + 1"
  by (simp add: error_def emit_def Let_def entry_example_def Taxonomy_init_def py_format_def)

subsection \<open>Frames: what reporting leaves unchanged and what it emits\<close>

lemma error_frame:
  "error ps t m a l c y = (r, t', out) \<Longrightarrow> t' = t\<lparr>errors := errors t + 1\<rparr>"
  using error_state [of ps t m a l c y] by simp

lemma warning_frame:
  "warning ps t m a l c y = (r, t', out) \<Longrightarrow> t' = t\<lparr>warnings := warnings t + 1\<rparr>"
  using warning_state [of ps t m a l c y] by simp

lemma same_document_refl: "same_document t t"
  by (simp add: same_document_def)

lemma same_document_trans:
  "same_document t t' \<Longrightarrow> same_document t' t'' \<Longrightarrow> same_document t t''"
  by (simp add: same_document_def)

lemma error_same_document:
  "error ps t m a l c y = (r, t', out) \<Longrightarrow> same_document t t'"
  by (drule error_frame) (simp add: same_document_def)

lemma warning_same_document:
  "warning ps t m a l c y = (r, t', out) \<Longrightarrow> same_document t t'"
  by (drule warning_frame) (simp add: same_document_def)

lemma emit_not_run:
  "emit ps std gh lv t m a l c y = Inr ev \<Longrightarrow> \<not> is_yamllint_run ev \<and> \<not> is_read ev"
  by (cases "message_format t")
     (auto simp: emit_def Let_def split: sum.splits if_splits)

lemma error_events:
  "error ps t m a l c y = (r, t', out) \<Longrightarrow> e \<in> set out \<Longrightarrow> \<not> is_yamllint_run e \<and> \<not> is_read e"
  by (auto simp: error_def Let_def split: sum.splits dest: emit_not_run)

lemma warning_events:
  "warning ps t m a l c y = (r, t', out) \<Longrightarrow> e \<in> set out \<Longrightarrow> \<not> is_yamllint_run e \<and> \<not> is_read e"
  by (auto simp: warning_def Let_def split: sum.splits dest: emit_not_run)

lemma lint_lines_same_document:
  "lint_lines ps p ls t = (r, t', out) \<Longrightarrow> same_document t t'"
proof (induction ls arbitrary: t r t' out)
  case Nil
  then show ?case by (simp add: same_document_refl)
next
  case (Cons l ls)
  show ?case
  proof (cases "pattern_match l")
    case None
    with Cons show ?thesis by simp
  next
    case (Some g)
    obtain lno cl severity msg where g: "g = (lno, cl, severity, msg)"
      by (cases g) auto
    let ?call = "if yamllint_strict p \<or> severity = ''error''
                 then error ps t msg [] (LStr lno) (LStr cl) []
                 else warning ps t msg [] (LStr lno) (LStr cl) []"
    obtain r1 t1 out1 where c: "?call = (r1, t1, out1)" by (cases ?call) auto
    have s1: "same_document t t1"
      using c by (auto split: if_splits dest: error_same_document warning_same_document)
    show ?thesis
    proof (cases r1)
      case (Raise e)
      with Cons.prems Some g c have "t' = t1" by simp
      with s1 show ?thesis by simp
    next
      case (Return u)
      obtain r2 t2 out2 where l2: "lint_lines ps p ls t1 = (r2, t2, out2)"
        by (cases "lint_lines ps p ls t1") auto
      with Cons.prems Some g c Return have "t' = t2" by simp
      with Cons.IH [OF l2] s1 show ?thesis by (auto intro: same_document_trans)
    qed
  qed
qed

lemma yamllint_same_document:
  "yamllint env p content t = (r, t', out) \<Longrightarrow> same_document t t'"
  by (auto simp: yamllint_def same_document_refl split: sum.splits if_splits prod.splits
      dest: lint_lines_same_document)

lemma locate_line_events:
  "locate_line env content yp p = (r, p', out) \<Longrightarrow> e \<in> set out
     \<Longrightarrow> \<not> is_yamllint_run e \<and> \<not> is_read e"
  by (auto simp: locate_line_def split: if_splits sum.splits)

lemma report_violation_same_document:
  "report_violation ps t ve line yp = (r, t', out) \<Longrightarrow> same_document t t'"
  by (auto simp: report_violation_def split: if_splits dest: error_same_document)

lemma report_violation_events:
  "report_violation ps t ve line yp = (r, t', out) \<Longrightarrow> e \<in> set out
     \<Longrightarrow> \<not> is_yamllint_run e \<and> \<not> is_read e"
  by (auto simp: report_violation_def split: if_splits dest: error_events)

lemma report_violations_props:
  "report_violations env content ves p t = (r, p', t', out)
     \<Longrightarrow> same_document t t' \<and> (\<forall>e \<in> set out. \<not> is_yamllint_run e \<and> \<not> is_read e)"
proof (induction ves arbitrary: p t r p' t' out)
  case Nil
  then show ?case by (simp add: same_document_refl)
next
  case (Cons ve ves)
  obtain r1 p1 out1 where l: "locate_line env content (yaml_path_of ve) p = (r1, p1, out1)"
    by (cases "locate_line env content (yaml_path_of ve) p") auto
  have e1: "\<forall>e \<in> set out1. \<not> is_yamllint_run e \<and> \<not> is_read e"
    using locate_line_events [OF l] by blast
  show ?case
  proof (cases r1)
    case (Raise e)
    with Cons.prems l have "t' = t" "out = out1" by simp_all
    with e1 show ?thesis by (simp add: same_document_refl)
  next
    case (Return line)
    obtain r2 t2 out2 where
      v: "report_violation (strs env) t ve line (yaml_path_of ve) = (r2, t2, out2)"
      by (cases "report_violation (strs env) t ve line (yaml_path_of ve)") auto
    have s2: "same_document t t2" using v by (rule report_violation_same_document)
    have e2: "\<forall>e \<in> set out2. \<not> is_yamllint_run e \<and> \<not> is_read e"
      using report_violation_events [OF v] by blast
    show ?thesis
    proof (cases r2)
      case (Raise e)
      with Cons.prems l Return v have "t' = t2" "out = out1 @ out2" by simp_all
      with s2 e1 e2 show ?thesis by auto
    next
      case (Return u)
      obtain r3 p3 t3 out3 where
        rec: "report_violations env content ves p1 t2 = (r3, p3, t3, out3)"
        by (cases "report_violations env content ves p1 t2") auto
      from Cons.prems l \<open>r1 = Return line\<close> v Return rec
      have "t' = t3" "out = out1 @ out2 @ out3" by simp_all
      with Cons.IH [OF rec] s2 e1 e2 show ?thesis
        by (auto intro: same_document_trans)
    qed
  qed
qed

lemma except_NoSuchResource_props:
  "except_NoSuchResource ps e t = (r, t', out)
     \<Longrightarrow> same_document t t' \<and> (\<forall>x \<in> set out. \<not> is_yamllint_run x \<and> \<not> is_read x)"
proof (cases e)
  case (NoSuchResource ref)
  obtain r1 t1 out1 where
    c: "error ps t ''Cannot load schema file %s. %s'' [OStr ref, OExc e] (LInt 1) (LInt 1) []
          = (r1, t1, out1)"
    by (cases "error ps t ''Cannot load schema file %s. %s'' [OStr ref, OExc e] (LInt 1) (LInt 1) []")
       auto
  assume a: "except_NoSuchResource ps e t = (r, t', out)"
  from a c NoSuchResource have "t' = t1 \<and> out = out1"
    by (cases r1) (simp_all add: except_NoSuchResource_def)
  with error_same_document [OF c] error_events [OF c] show ?thesis by blast
qed (auto simp: except_NoSuchResource_def same_document_refl)

lemma load_schema_events:
  "load_schema files i f cache = (r, cache', out) \<Longrightarrow> e \<in> set out \<Longrightarrow> \<not> is_yamllint_run e"
  by (auto simp: load_schema_def split: option.splits)

lemma schema_validate_props:
  assumes "schema_validate env content p t cache = (r, p', t', cache', out)"
  shows "same_document t t' \<and> (\<forall>e \<in> set out. \<not> is_yamllint_run e)"
proof (cases "path t")
  case Nil
  with assms show ?thesis by (simp add: schema_validate_def same_document_refl)
next
  case (Cons first rest)
  let ?ld = "retrieve (schema_files env) (ident p) (''v'' @ str_pyint (version t))
               (schema_name_of p t first @ ''.json'') cache"
  obtain r0 c0 out0 where ld: "?ld = (r0, c0, out0)" by (cases ?ld) auto
  have e0: "\<forall>e \<in> set out0. \<not> is_yamllint_run e"
    using ld load_schema_events unfolding retrieve_def by blast
  show ?thesis
  proof (cases r0)
    case (Inl e)
    obtain r1 t1 out1 where x: "except_NoSuchResource (strs env) e t = (r1, t1, out1)"
      by (cases "except_NoSuchResource (strs env) e t") auto
    from assms Cons ld Inl x have "t' = t1" "out = out0 @ out1"
      by (simp_all add: schema_validate_def)
    with except_NoSuchResource_props [OF x] e0 show ?thesis by auto
  next
    case (Inr schema)
    let ?ves = "fst (iter_errors env schema (parsed t))"
    obtain r1 p1 t1 out1 where
      rv: "report_violations env content ?ves p t = (r1, p1, t1, out1)"
      by (cases "report_violations env content ?ves p t") auto
    note pr = report_violations_props [OF rv]
    show ?thesis
    proof (cases r1)
      case (Raise e)
      obtain r2 t2 out2 where x: "except_NoSuchResource (strs env) e t1 = (r2, t2, out2)"
        by (cases "except_NoSuchResource (strs env) e t1") auto
      from assms Cons ld Inr rv Raise x have "t' = t2" "out = out0 @ out1 @ out2"
        by (simp_all add: schema_validate_def)
      with except_NoSuchResource_props [OF x] pr e0 show ?thesis
        by (auto intro: same_document_trans)
    next
      case (Return u)
      show ?thesis
      proof (cases "snd (iter_errors env schema (parsed t))")
        case None
        with assms Cons ld Inr rv Return have "t' = t1" "out = out0 @ out1"
          by (simp_all add: schema_validate_def)
        with pr e0 show ?thesis by auto
      next
        case (Some e)
        obtain r2 t2 out2 where x: "except_NoSuchResource (strs env) e t1 = (r2, t2, out2)"
          by (cases "except_NoSuchResource (strs env) e t1") auto
        from assms Cons ld Inr rv Return Some x have "t' = t2" "out = out0 @ out1 @ out2"
          by (simp_all add: schema_validate_def)
        with except_NoSuchResource_props [OF x] pr e0 show ?thesis
          by (auto intro: same_document_trans)
      qed
    qed
  qed
qed

subsection \<open>The stages of parse\<close>

lemma new_entry_fields:
  "errors (new_entry env p a) = 0" "warnings (new_entry env p a) = 0"
  "parsed (new_entry env p a) = []" "version (new_entry env p a) = PInt 0"
  "path (new_entry env p a) = taxonomy_path (taxonomy_folders p) a"
  by (simp_all add: new_entry_def Taxonomy_init_def)

lemma emit_counters:
  "emit ps std gh lv (t\<lparr>errors := n\<rparr>) m a l c y = emit ps std gh lv t m a l c y"
  "emit ps std gh lv (t\<lparr>warnings := n\<rparr>) m a l c y = emit ps std gh lv t m a l c y"
  by (cases "message_format t"; simp add: emit_def)+

lemma error_returns:
  assumes "emit ps ''ERROR'' ''error'' ERROR t m a l c y = Inr ev"
  shows "error ps t m a l c y
           = (Return (t\<lparr>errors := errors t + 1\<rparr>), t\<lparr>errors := errors t + 1\<rparr>, [ev])"
  using assms by (simp add: error_def Let_def emit_counters)

lemma warning_returns:
  assumes "emit ps ''WARN'' ''warning'' WARNING t m a l c y = Inr ev"
  shows "warning ps t m a l c y
           = (Return (t\<lparr>warnings := warnings t + 1\<rparr>), t\<lparr>warnings := warnings t + 1\<rparr>, [ev])"
  using assms by (simp add: warning_def Let_def emit_counters)

lemma emit_noargs: "\<exists>ev. emit ps std gh lv t m [] l c y = Inr ev"
  by (rule emit_returns) simp

lemma format_not_a_file:
  \<open>py_format ps ''The file "%s" does not exist or is not a file'' [a]
     = Inr (''The file "'' @ py_str ps a @ ''" does not exist or is not a file'')\<close>
  by (simp add: py_format_def)

lemma format_bad_name:
  \<open>py_format ps ''Taxonomy file must be named "qna.yaml"; "%s" is not a valid name'' [a]
     = Inr (''Taxonomy file must be named "qna.yaml"; "'' @ py_str ps a
              @ ''" is not a valid name'')\<close>
  by (simp add: py_format_def)

lemma plain_cannot_load: "plain_format ''Cannot load schema file %s. %s''"
  by simp

lemma format_cannot_load:
  "format_plain ''Cannot load schema file %s. %s'' [a, b]
     = Inr (''Cannot load schema file '' @ a @ ''. '' @ b)"
  by simp

lemma plain_min_items: "plain_format ''Value must have at least %s items''"
  by simp

lemma format_min_items:
  "format_plain ''Value must have at least %s items'' [a]
     = Inr (''Value must have at least '' @ a @ '' items'')"
  by simp

lemma emit_formatted:
  "py_format ps m a = Inr x
     \<Longrightarrow> \<exists>ev. emit ps std gh lv t m a l c y = Inr ev"
  using emit_returns [of t a ps m x std gh lv l c y] by simp

lemma parse_not_a_file:
  assumes "\<not> isfile env a"
  shows "\<exists>ev. parse env p a cache
            = (Return ((new_entry env p a)\<lparr>errors := 1\<rparr>), p, cache, [ev])"
proof -
  let ?t = "new_entry env p a"
  have \<open>\<exists>ev. emit (strs env) ''ERROR'' ''error'' ERROR ?t
            ''The file "%s" does not exist or is not a file'' [OPath a] (LInt 1) (LInt 1) []
          = Inr ev\<close>
    by (rule emit_formatted) (rule format_not_a_file)
  then obtain ev where \<open>emit (strs env) ''ERROR'' ''error'' ERROR ?t
            ''The file "%s" does not exist or is not a file'' [OPath a] (LInt 1) (LInt 1) []
          = Inr ev\<close> ..
  from error_returns [OF this] assms show ?thesis
    by (simp add: parse_def new_entry_fields)
qed

lemma parse_bad_name:
  assumes "isfile env a" "path_name a \<noteq> ''qna.yaml''"
  shows "\<exists>ev. parse env p a cache
            = (Return ((new_entry env p a)\<lparr>errors := 1\<rparr>), p, cache, [ev])"
proof -
  let ?t = "new_entry env p a"
  have \<open>\<exists>ev. emit (strs env) ''ERROR'' ''error'' ERROR ?t
            ''Taxonomy file must be named "qna.yaml"; "%s" is not a valid name''
            [OStr (path_name a)] (LInt 1) (LInt 1) []
          = Inr ev\<close>
    by (rule emit_formatted) (rule format_bad_name)
  then obtain ev where \<open>emit (strs env) ''ERROR'' ''error'' ERROR ?t
            ''Taxonomy file must be named "qna.yaml"; "%s" is not a valid name''
            [OStr (path_name a)] (LInt 1) (LInt 1) []
          = Inr ev\<close> ..
  from error_returns [OF this] assms show ?thesis
    by (simp add: parse_def new_entry_fields)
qed

lemma parse_empty:
  assumes "isfile env a" "path_name a = ''qna.yaml''" "read_text env a = Inr content"
    "safe_load env content = Inr doc" "\<not> py_truthy doc"
  shows "\<exists>ev. parse env p a cache
            = (Return ((new_entry env p a)\<lparr>warnings := 1\<rparr>), p, cache, [ev])
          \<and> emit (strs env) ''WARN'' ''warning'' WARNING (new_entry env p a)
               ''The file is empty'' [] (LInt 1) (LInt 1) [] = Inr ev"
proof -
  let ?t = "new_entry env p a"
  obtain ev where e: "emit (strs env) ''WARN'' ''warning'' WARNING ?t
               ''The file is empty'' [] (LInt 1) (LInt 1) [] = Inr ev"
    using emit_noargs by blast
  from warning_returns [OF e] assms e show ?thesis
    by (simp add: parse_def parse_body_def new_entry_fields)
qed

lemma parse_not_mapping:
  assumes "isfile env a" "path_name a = ''qna.yaml''" "read_text env a = Inr content"
    "safe_load env content = Inr doc" "py_truthy doc" "\<forall>m. doc \<noteq> YMap m"
  shows "\<exists>ev. parse env p a cache
            = (Return ((new_entry env p a)\<lparr>errors := 1\<rparr>), p, cache, [ev])
          \<and> emit (strs env) ''ERROR'' ''error'' ERROR (new_entry env p a)
               ''The file is not valid. The top-level element is not an object with key-value pairs.''
               [] (LInt 1) (LInt 1) [] = Inr ev"
proof -
  let ?t = "new_entry env p a"
  let ?m = "''The file is not valid. The top-level element is not an object with key-value pairs.''"
  obtain ev where e: "emit (strs env) ''ERROR'' ''error'' ERROR ?t ?m [] (LInt 1) (LInt 1) []
                        = Inr ev"
    using emit_noargs by blast
  note r = error_returns [OF e]
  have "parse_body env p a ?t cache
          = (Return (?t\<lparr>errors := 1\<rparr>), p, cache, [ev])"
    using assms(3-6) r
    by (cases doc) (simp_all add: parse_body_def new_entry_fields)
  with assms(1,2) e show ?thesis
    by (simp add: parse_def)
qed

lemma parse_mapping:
  assumes "isfile env a" "path_name a = ''qna.yaml''" "read_text env a = Inr content"
    "safe_load env content = Inr (YMap m)" "m \<noteq> []"
  shows "parse env p a cache =
     (case resolve_version p m of
        Inl e \<Rightarrow> (Raise (TaxonomyReadingException (Some e)), p, cache, [])
      | Inr v \<Rightarrow>
          (case (if int_of v > 1
                 then yamllint env p content ((new_entry env p a)\<lparr>version := v, parsed := m\<rparr>)
                 else (Return (), (new_entry env p a)\<lparr>version := v, parsed := m\<rparr>, [])) of
             (Raise e, t2, out) \<Rightarrow> (Raise (TaxonomyReadingException (Some e)), p, cache, out)
           | (Return u, t2, out) \<Rightarrow>
               (case schema_validate env content p t2 cache of
                  (Raise e, p', t3, cache', out') \<Rightarrow>
                    (Raise (TaxonomyReadingException (Some e)), p', cache', out @ out')
                | (Return u', p', t3, cache', out') \<Rightarrow>
                    (Return t3, p', cache', out @ out'))))"
  using assms
  by (simp add: parse_def parse_body_def split: sum.splits prod.splits result.splits)

lemma parse_read_fails:
  assumes "isfile env a" "path_name a = ''qna.yaml''" "read_text env a = Inl e"
  shows "parse env p a cache = (Raise (TaxonomyReadingException (Some e)), p, cache, [])"
  using assms by (simp add: parse_def parse_body_def)

lemma parse_decode_fails:
  assumes "isfile env a" "path_name a = ''qna.yaml''" "read_text env a = Inr content"
    "safe_load env content = Inl e"
  shows "parse env p a cache = (Raise (TaxonomyReadingException (Some e)), p, cache, [])"
  using assms by (simp add: parse_def parse_body_def)

lemma parse_mapping_return:
  assumes "isfile env a" "path_name a = ''qna.yaml''" "read_text env a = Inr content"
    "safe_load env content = Inr (YMap m)" "m \<noteq> []"
    and ret: "fst (parse env p a cache) = Return t"
  shows "\<exists>v. resolve_version p m = Inr v
           \<and> same_document ((new_entry env p a)\<lparr>version := v, parsed := m\<rparr>) t"
proof -
  note pm = parse_mapping [OF assms(1-5), of p cache]
  show ?thesis
  proof (cases "resolve_version p m")
    case (Inl e)
    with pm ret show ?thesis by simp
  next
    case (Inr v)
    let ?t1 = "(new_entry env p a)\<lparr>version := v, parsed := m\<rparr>"
    let ?lint = "if int_of v > 1 then yamllint env p content ?t1 else (Return (), ?t1, [])"
    obtain r2 t2 out2 where l: "?lint = (r2, t2, out2)" by (cases ?lint) auto
    have s12: "same_document ?t1 t2"
      using l by (auto split: if_splits dest: yamllint_same_document simp: same_document_refl)
    show ?thesis
    proof (cases r2)
      case (Raise e)
      with pm ret Inr l show ?thesis by simp
    next
      case (Return u)
      obtain r3 p3 t3 c3 out3 where
        sv: "schema_validate env content p t2 cache = (r3, p3, t3, c3, out3)"
        by (cases "schema_validate env content p t2 cache") auto
      have s23: "same_document t2 t3" using schema_validate_props [OF sv] by simp
      show ?thesis
      proof (cases r3)
        case (Raise e)
        with pm ret Inr l \<open>r2 = Return u\<close> sv show ?thesis by simp
      next
        case (Return u')
        with pm ret Inr l \<open>r2 = Return u\<close> sv have "t = t3" by simp
        with s12 s23 Inr show ?thesis by (auto intro: same_document_trans)
      qed
    qed
  qed
qed

subsection \<open>What the top-level value decides\<close>

text \<open>
  Claim C3, as the code has it. For an existing file named \<open>qna.yaml\<close> whose text
  decodes, a non-empty top-level sequence (like every other true value that is not a
  mapping) gives an entry with exactly one error and no warning, the error being the
  diagnostic that the top-level element is not an object. The empty sequence, like
  every value that Python counts as false (the empty document, the empty mapping,
  the empty string, zero, false), gives exactly one warning, "The file is empty", and
  no error; and this early exit is taken for no other value.
\<close>

theorem top_level_sequence:
  assumes "isfile env a" "path_name a = ''qna.yaml''" "read_text env a = Inr content"
    "safe_load env content = Inr doc"
  shows
    "((\<exists>xs. doc = YSeq xs \<and> xs \<noteq> []) \<or> (py_truthy doc \<and> (\<forall>m. doc \<noteq> YMap m))
        \<longrightarrow> (\<exists>ev. parse env p a cache
                   = (Return ((new_entry env p a)\<lparr>errors := 1\<rparr>), p, cache, [ev])
                \<and> counts (fst (parse env p a cache)) = Some (1, 0)
                \<and> emit (strs env) ''ERROR'' ''error'' ERROR (new_entry env p a)
                     ''The file is not valid. The top-level element is not an object with key-value pairs.''
                     [] (LInt 1) (LInt 1) [] = Inr ev))
     \<and> (doc = YSeq [] \<or> \<not> py_truthy doc
        \<longrightarrow> (\<exists>ev. parse env p a cache
                   = (Return ((new_entry env p a)\<lparr>warnings := 1\<rparr>), p, cache, [ev])
                \<and> counts (fst (parse env p a cache)) = Some (0, 1)
                \<and> emit (strs env) ''WARN'' ''warning'' WARNING (new_entry env p a)
                     ''The file is empty'' [] (LInt 1) (LInt 1) [] = Inr ev))
     \<and> (fst (parse env p a cache) = Return ((new_entry env p a)\<lparr>warnings := 1\<rparr>)
        \<longrightarrow> \<not> py_truthy doc)"
proof -
  let ?t = "new_entry env p a"
  have A: "\<exists>ev. parse env p a cache = (Return (?t\<lparr>errors := 1\<rparr>), p, cache, [ev])
                \<and> counts (fst (parse env p a cache)) = Some (1, 0)
                \<and> emit (strs env) ''ERROR'' ''error'' ERROR ?t
                     ''The file is not valid. The top-level element is not an object with key-value pairs.''
                     [] (LInt 1) (LInt 1) [] = Inr ev"
    if "py_truthy doc \<and> (\<forall>m. doc \<noteq> YMap m)"
  proof -
    from that parse_not_mapping [OF assms, of p cache] obtain ev where
      "parse env p a cache = (Return (?t\<lparr>errors := 1\<rparr>), p, cache, [ev])"
      "emit (strs env) ''ERROR'' ''error'' ERROR ?t
         ''The file is not valid. The top-level element is not an object with key-value pairs.''
         [] (LInt 1) (LInt 1) [] = Inr ev"
      by blast
    then show ?thesis by (simp add: new_entry_fields)
  qed
  have B: "\<exists>ev. parse env p a cache = (Return (?t\<lparr>warnings := 1\<rparr>), p, cache, [ev])
                \<and> counts (fst (parse env p a cache)) = Some (0, 1)
                \<and> emit (strs env) ''WARN'' ''warning'' WARNING ?t
                     ''The file is empty'' [] (LInt 1) (LInt 1) [] = Inr ev"
    if "\<not> py_truthy doc"
  proof -
    from that parse_empty [OF assms, of p cache] obtain ev where
      "parse env p a cache = (Return (?t\<lparr>warnings := 1\<rparr>), p, cache, [ev])"
      "emit (strs env) ''WARN'' ''warning'' WARNING ?t
         ''The file is empty'' [] (LInt 1) (LInt 1) [] = Inr ev"
      by blast
    then show ?thesis by (simp add: new_entry_fields)
  qed
  have C: "\<not> py_truthy doc"
    if r: "fst (parse env p a cache) = Return (?t\<lparr>warnings := 1\<rparr>)"
  proof (rule ccontr)
    assume "\<not> \<not> py_truthy doc"
    then have tr: "py_truthy doc" by simp
    show False
    proof (cases "\<exists>m. doc = YMap m")
      case False
      with tr A have "counts (fst (parse env p a cache)) = Some (1, 0)" by blast
      with r show False by (simp add: new_entry_fields)
    next
      case True
      then obtain m where m: "doc = YMap m" by blast
      with tr have ne: "m \<noteq> []" by simp
      from parse_mapping_return [OF assms(1-3) assms(4) [unfolded m] ne r]
      obtain v where "same_document (?t\<lparr>version := v, parsed := m\<rparr>) (?t\<lparr>warnings := 1\<rparr>)"
        by blast
      then have "m = []" by (simp add: same_document_def new_entry_fields)
      with ne show False by simp
    qed
  qed
  have s1: "py_truthy doc \<and> (\<forall>m. doc \<noteq> YMap m)" if "\<exists>xs. doc = YSeq xs \<and> xs \<noteq> []"
    using that by auto
  have s2: "\<not> py_truthy doc" if "doc = YSeq []" using that by simp
  show ?thesis using A B C s1 s2 by blast
qed

theorem top_level_sequence_witness:
  "counts (fst (parse (env_doc (YSeq [YStr ''a'', YStr ''b''])) parser_example
                  qna_path_example [])) = Some (1, 0)
   \<and> counts (fst (parse (env_doc YNull) parser_example qna_path_example [])) = Some (0, 1)"
proof -
  have h: "isfile (env_doc d) qna_path_example" "path_name qna_path_example = ''qna.yaml''"
    "read_text (env_doc d) qna_path_example = Inr ''text''"
    "safe_load (env_doc d) ''text'' = Inr d" for d
    by (simp_all add: env_doc_def qna_path_example_def path_name_def)
  from top_level_sequence [OF h, of "YSeq [YStr ''a'', YStr ''b'']" parser_example "[]"]
  have 1: "counts (fst (parse (env_doc (YSeq [YStr ''a'', YStr ''b''])) parser_example
                  qna_path_example [])) = Some (1, 0)"
    by auto
  from top_level_sequence [OF h, of YNull parser_example "[]"]
  have 2: "counts (fst (parse (env_doc YNull) parser_example qna_path_example [])) = Some (0, 1)"
    by auto
  from 1 2 show ?thesis by simp
qed

text \<open>
  The claim as stated fails at the empty sequence: the entry has one warning and no
  error.
\<close>

theorem empty_sequence_counterexample:
  "counts (fst (parse (env_doc (YSeq [])) parser_example qna_path_example [])) = Some (0, 1)"
proof -
  have "\<exists>ev. parse (env_doc (YSeq [])) parser_example qna_path_example []
          = (Return ((new_entry (env_doc (YSeq [])) parser_example qna_path_example)
                       \<lparr>warnings := 1\<rparr>), parser_example, [], [ev])
        \<and> emit (strs (env_doc (YSeq []))) ''WARN'' ''warning'' WARNING
             (new_entry (env_doc (YSeq [])) parser_example qna_path_example)
             ''The file is empty'' [] (LInt 1) (LInt 1) [] = Inr ev"
    by (rule parse_empty [where content = "''text''" and doc = "YSeq []"])
       (simp_all add: env_doc_def qna_path_example_def path_name_def)
  then show ?thesis by (auto simp: new_entry_fields)
qed

text \<open>
  Claim C10, as the code has it. On every early exit (the path is not a file, the
  file is not named \<open>qna.yaml\<close>, the decoded value is false, or it is not a mapping)
  parse returns an entry that has the empty mapping as its document and version 0.
  Every other parse that returns has decoded a non-empty mapping from the file, and
  the entry it returns has that mapping as its document and the version resolved for
  it as its version: the two fields are set, together, exactly when a non-empty
  mapping was decoded. So on a returned entry the document is empty if and only if
  parse exited early. (A resolved version can itself be 0, so it is the empty
  document, not the version, that tells an early exit.)
\<close>

theorem early_exit_document:
  "((\<not> isfile env a \<or> path_name a \<noteq> ''qna.yaml''
       \<or> (\<exists>content doc. read_text env a = Inr content \<and> safe_load env content = Inr doc
             \<and> (\<not> py_truthy doc \<or> (\<forall>m. doc \<noteq> YMap m))))
      \<longrightarrow> document_of (fst (parse env p a cache)) = Some ([], PInt 0))
   \<and> (\<forall>t. fst (parse env p a cache) = Return t \<longrightarrow>
          ((parsed t = [])
             = (\<not> isfile env a \<or> path_name a \<noteq> ''qna.yaml''
                \<or> (\<exists>content doc. read_text env a = Inr content
                      \<and> safe_load env content = Inr doc
                      \<and> (\<not> py_truthy doc \<or> (\<forall>m. doc \<noteq> YMap m)))))
        \<and> (parsed t = [] \<longrightarrow> version t = PInt 0)
        \<and> (parsed t \<noteq> [] \<longrightarrow>
              (\<exists>content. isfile env a \<and> path_name a = ''qna.yaml''
                 \<and> read_text env a = Inr content
                 \<and> safe_load env content = Inr (YMap (parsed t))
                 \<and> resolve_version p (parsed t) = Inr (version t))))"
proof -
  let ?t0 = "new_entry env p a"
  let ?r = "fst (parse env p a cache)"
  let ?E = "\<not> isfile env a \<or> path_name a \<noteq> ''qna.yaml''
       \<or> (\<exists>content doc. read_text env a = Inr content \<and> safe_load env content = Inr doc
             \<and> (\<not> py_truthy doc \<or> (\<forall>m. doc \<noteq> YMap m)))"
  have nf: "?r = Return (?t0\<lparr>errors := 1\<rparr>)" if "\<not> isfile env a"
    using parse_not_a_file [OF that, of p cache] by auto
  have bn: "?r = Return (?t0\<lparr>errors := 1\<rparr>)" if "isfile env a" "path_name a \<noteq> ''qna.yaml''"
    using parse_bad_name [OF that, of p cache] by auto
  have em: "?r = Return (?t0\<lparr>warnings := 1\<rparr>)"
    if "isfile env a" "path_name a = ''qna.yaml''" "read_text env a = Inr content"
      "safe_load env content = Inr doc" "\<not> py_truthy doc" for content doc
    using parse_empty [OF that, of p cache] by auto
  have nm: "?r = Return (?t0\<lparr>errors := 1\<rparr>)"
    if "isfile env a" "path_name a = ''qna.yaml''" "read_text env a = Inr content"
      "safe_load env content = Inr doc" "py_truthy doc" "\<forall>m. doc \<noteq> YMap m" for content doc
    using parse_not_mapping [OF that, of p cache] by auto
  have first: "document_of ?r = Some ([], PInt 0)" if h: ?E
  proof (cases "isfile env a")
    case False
    from nf [OF this] show ?thesis by (simp add: new_entry_fields)
  next
    case isf: True
    show ?thesis
    proof (cases "path_name a = ''qna.yaml''")
      case False
      from bn [OF isf this] show ?thesis by (simp add: new_entry_fields)
    next
      case nm_ok: True
      with h isf obtain content doc where
        c: "read_text env a = Inr content" "safe_load env content = Inr doc"
        and d: "\<not> py_truthy doc \<or> (\<forall>m. doc \<noteq> YMap m)"
        by blast
      show ?thesis
      proof (cases "py_truthy doc")
        case False
        from em [OF isf nm_ok c this] show ?thesis by (simp add: new_entry_fields)
      next
        case True
        with d have "\<forall>m. doc \<noteq> YMap m" by simp
        from nm [OF isf nm_ok c True this] show ?thesis by (simp add: new_entry_fields)
      qed
    qed
  qed
  have early: "parsed t = [] \<and> version t = PInt 0" if r: "?r = Return t" and h: ?E for t
    using first [OF h] r by simp
  have late: "\<exists>content. isfile env a \<and> path_name a = ''qna.yaml''
              \<and> read_text env a = Inr content
              \<and> safe_load env content = Inr (YMap (parsed t))
              \<and> parsed t \<noteq> []
              \<and> resolve_version p (parsed t) = Inr (version t)"
    if r: "?r = Return t" and h: "\<not> ?E" for t
  proof -
    from h have isf: "isfile env a" and nm_ok: "path_name a = ''qna.yaml''" by simp_all
    show ?thesis
    proof (cases "read_text env a")
      case (Inl e)
      from parse_read_fails [OF isf nm_ok Inl, of p cache] r show ?thesis by simp
    next
      case (Inr content)
      show ?thesis
      proof (cases "safe_load env content")
        case (Inl e)
        from parse_decode_fails [OF isf nm_ok Inr Inl, of p cache] r show ?thesis by simp
      next
        case ld: (Inr doc)
        from h Inr ld have tr: "py_truthy doc" and "\<exists>m. doc = YMap m" by blast+
        then obtain m where m: "doc = YMap m" by blast
        with tr have ne: "m \<noteq> []" by simp
        from parse_mapping_return [OF isf nm_ok Inr ld [unfolded m] ne r]
        obtain v where v: "resolve_version p m = Inr v"
          and s: "same_document (?t0\<lparr>version := v, parsed := m\<rparr>) t"
          by blast
        from s have "parsed t = m" "version t = v" by (simp_all add: same_document_def)
        with isf nm_ok Inr ld m ne v show ?thesis by auto
      qed
    qed
  qed
  have second: "((parsed t = []) = ?E)
        \<and> (parsed t = [] \<longrightarrow> version t = PInt 0)
        \<and> (parsed t \<noteq> [] \<longrightarrow>
              (\<exists>content. isfile env a \<and> path_name a = ''qna.yaml''
                 \<and> read_text env a = Inr content
                 \<and> safe_load env content = Inr (YMap (parsed t))
                 \<and> resolve_version p (parsed t) = Inr (version t)))"
    if r: "?r = Return t" for t
  proof (cases ?E)
    case True
    from early [OF r True] True show ?thesis by simp
  next
    case False
    from late [OF r False] obtain content where
      c: "isfile env a" "path_name a = ''qna.yaml''" "read_text env a = Inr content"
        "safe_load env content = Inr (YMap (parsed t))" "parsed t \<noteq> []"
        "resolve_version p (parsed t) = Inr (version t)"
      by blast
    have 1: "(parsed t = []) = ?E" using False c(5) by simp
    have 2: "parsed t = [] \<longrightarrow> version t = PInt 0" using c(5) by simp
    have 3: "parsed t \<noteq> [] \<longrightarrow>
              (\<exists>content. isfile env a \<and> path_name a = ''qna.yaml''
                 \<and> read_text env a = Inr content
                 \<and> safe_load env content = Inr (YMap (parsed t))
                 \<and> resolve_version p (parsed t) = Inr (version t))"
      using c by blast
    from 1 2 3 show ?thesis by (intro conjI)
  qed
  from first second show ?thesis by blast
qed

theorem early_exit_document_witness:
  "document_of (fst (parse (env_doc YNull) parser_example qna_path_example []))
     = Some ([], PInt 0)
   \<and> document_of (fst (parse (env_doc (YSeq [YInt 1])) parser_example
                         [''/'', ''tmp'', ''notes.txt''] []))
     = Some ([], PInt 0)
   \<and> document_of (fst (parse (env_doc (YMap [(YStr ''version'', YInt 3)])) parser_example
                         qna_path_example []))
     = Some ([(YStr ''version'', YInt 3)], PInt 3)"
proof -
  have 1: "\<exists>content doc. read_text (env_doc YNull) qna_path_example = Inr content
             \<and> safe_load (env_doc YNull) content = Inr doc
             \<and> (\<not> py_truthy doc \<or> (\<forall>m. doc \<noteq> YMap m))"
    by (simp add: env_doc_def)
  have 2: "path_name [''/'', ''tmp'', ''notes.txt''] \<noteq> ''qna.yaml''"
    by (simp add: path_name_def)
  from early_exit_document [of "env_doc YNull" qna_path_example parser_example "[]"] 1
  have a: "document_of (fst (parse (env_doc YNull) parser_example qna_path_example []))
             = Some ([], PInt 0)"
    by blast
  from early_exit_document [of "env_doc (YSeq [YInt 1])" "[''/'', ''tmp'', ''notes.txt'']"
      parser_example "[]"] 2
  have b: "document_of (fst (parse (env_doc (YSeq [YInt 1])) parser_example
                         [''/'', ''tmp'', ''notes.txt''] []))
             = Some ([], PInt 0)"
    by blast
  let ?m = "[(YStr ''version'', YInt 3)]"
  let ?env = "env_doc (YMap ?m)"
  let ?r = "fst (parse ?env parser_example qna_path_example [])"
  have "document_of ?r \<noteq> None" by code_simp
  then obtain t where t: "?r = Return t" by (cases ?r) auto
  have 3: "\<not> (\<not> isfile ?env qna_path_example \<or> path_name qna_path_example \<noteq> ''qna.yaml''
       \<or> (\<exists>content doc. read_text ?env qna_path_example = Inr content
             \<and> safe_load ?env content = Inr doc
             \<and> (\<not> py_truthy doc \<or> (\<forall>m. doc \<noteq> YMap m))))"
    by (simp add: env_doc_def qna_path_example_def path_name_def)
  from early_exit_document [of ?env qna_path_example parser_example "[]"] t 3
  obtain content where
    c: "safe_load ?env content = Inr (YMap (parsed t))"
      "resolve_version parser_example (parsed t) = Inr (version t)"
    by blast
  from c(1) have p: "parsed t = ?m" by (simp add: env_doc_def)
  have "resolve_version parser_example ?m = Inr (PInt 3)"
    by (simp add: resolve_version_def parser_example_def)
  with c(2) p have "version t = PInt 3" by simp
  with p t have c: "document_of ?r = Some (?m, PInt 3)" by simp
  from a b c show ?thesis by simp
qed

text \<open>
  The last part of the claim as stated fails: a document that says \<open>version: 0\<close>,
  parsed with a schema version below 1, is decoded and gives an entry with version 0.
\<close>

theorem version_zero_counterexample:
  "document_of (fst (parse (env_doc (YMap [(YStr ''version'', YInt 0)])) parser_example
                       qna_path_example []))
     = Some ([(YStr ''version'', YInt 0)], PInt 0)"
  by code_simp

subsection \<open>Version resolution and the lint stage\<close>

lemma error_noargs_returns:
  "\<exists>ev. error ps t m [] l c y
          = (Return (t\<lparr>errors := errors t + 1\<rparr>), t\<lparr>errors := errors t + 1\<rparr>, [ev])"
  using emit_noargs error_returns by blast

lemma warning_noargs_returns:
  "\<exists>ev. warning ps t m [] l c y
          = (Return (t\<lparr>warnings := warnings t + 1\<rparr>), t\<lparr>warnings := warnings t + 1\<rparr>, [ev])"
  using emit_noargs warning_returns by blast

lemma lint_error_tuple:
  "lint_error p (lno, cl, severity, msg) = (yamllint_strict p \<or> severity = ''error'')"
  by (simp add: lint_error_def)

lemma lint_lines_counts:
  "\<exists>t' out. lint_lines ps p ls t = (Return (), t', out)
     \<and> errors t' = errors t
         + int (length (filter (lint_error p) (List.map_filter pattern_match ls)))
     \<and> warnings t' = warnings t
         + int (length (filter (\<lambda>f. \<not> lint_error p f) (List.map_filter pattern_match ls)))
     \<and> length out = length (List.map_filter pattern_match ls)"
proof (induction ls arbitrary: t)
  case Nil
  show ?case by (simp add: map_filter_simps)
next
  case (Cons l ls)
  show ?case
  proof (cases "pattern_match l")
    case None
    with Cons [of t] show ?thesis by (simp add: map_filter_simps)
  next
    case (Some g)
    obtain lno cl severity msg where g: "g = (lno, cl, severity, msg)"
      by (cases g) auto
    show ?thesis
    proof (cases "yamllint_strict p \<or> severity = ''error''")
      case True
      obtain ev where e: "error ps t msg [] (LStr lno) (LStr cl) []
          = (Return (t\<lparr>errors := errors t + 1\<rparr>), t\<lparr>errors := errors t + 1\<rparr>, [ev])"
        using error_noargs_returns by blast
      from Cons [of "t\<lparr>errors := errors t + 1\<rparr>"] obtain t' out where
        "lint_lines ps p ls (t\<lparr>errors := errors t + 1\<rparr>) = (Return (), t', out)"
        "errors t' = errors t + 1
           + int (length (filter (lint_error p) (List.map_filter pattern_match ls)))"
        "warnings t' = warnings t
           + int (length (filter (\<lambda>f. \<not> lint_error p f) (List.map_filter pattern_match ls)))"
        "length out = length (List.map_filter pattern_match ls)"
        by auto
      with Some g True e show ?thesis
        by (simp add: map_filter_simps lint_error_tuple)
    next
      case False
      obtain ev where e: "warning ps t msg [] (LStr lno) (LStr cl) []
          = (Return (t\<lparr>warnings := warnings t + 1\<rparr>), t\<lparr>warnings := warnings t + 1\<rparr>, [ev])"
        using warning_noargs_returns by blast
      from Cons [of "t\<lparr>warnings := warnings t + 1\<rparr>"] obtain t' out where
        "lint_lines ps p ls (t\<lparr>warnings := warnings t + 1\<rparr>) = (Return (), t', out)"
        "errors t' = errors t
           + int (length (filter (lint_error p) (List.map_filter pattern_match ls)))"
        "warnings t' = warnings t + 1
           + int (length (filter (\<lambda>f. \<not> lint_error p f) (List.map_filter pattern_match ls)))"
        "length out = length (List.map_filter pattern_match ls)"
        by auto
      with Some g False e show ?thesis
        by (simp add: map_filter_simps lint_error_tuple)
    qed
  qed
qed

lemma yamllint_reports:
  assumes "subprocess_run env (yamllint_cmd p) content = Inr stdout"
  shows "\<exists>t' out. yamllint env p content t = (Return (), t', Run (yamllint_cmd p) content # out)
     \<and> errors t' = errors t + int (length (filter (lint_error p) (lint_findings stdout)))
     \<and> warnings t' = warnings t
         + int (length (filter (\<lambda>f. \<not> lint_error p f) (lint_findings stdout)))
     \<and> length out = length (lint_findings stdout)"
  using lint_lines_counts [of "strs env" p "splitlines stdout" t] assms
  by (auto simp: yamllint_def lint_findings_def)

lemma yamllint_first_event:
  "\<exists>rest. snd (snd (yamllint env p content t)) = Run (yamllint_cmd p) content # rest"
  by (auto simp: yamllint_def split: sum.splits prod.splits)

lemma is_yamllint_run_cmd: "is_yamllint_run (Run (yamllint_cmd p) content)"
  by (simp add: yamllint_cmd_def)

lemma parse_mapping_events:
  assumes "isfile env a" "path_name a = ''qna.yaml''" "read_text env a = Inr content"
    "safe_load env content = Inr (YMap m)" "m \<noteq> []" "resolve_version p m = Inr v"
  shows "\<exists>rest. events_of (parse env p a cache)
            = snd (snd (if int_of v > 1
                        then yamllint env p content ((new_entry env p a)\<lparr>version := v, parsed := m\<rparr>)
                        else (Return (), (new_entry env p a)\<lparr>version := v, parsed := m\<rparr>, [])))
              @ rest
          \<and> (\<forall>e \<in> set rest. \<not> is_yamllint_run e)"
proof -
  let ?t1 = "(new_entry env p a)\<lparr>version := v, parsed := m\<rparr>"
  let ?lint = "if int_of v > 1 then yamllint env p content ?t1 else (Return (), ?t1, [])"
  note pm = parse_mapping [OF assms(1-5), of p cache]
  obtain r2 t2 out2 where l: "?lint = (r2, t2, out2)" by (cases ?lint) auto
  show ?thesis
  proof (cases r2)
    case (Raise e)
    with pm assms(6) l have "events_of (parse env p a cache) = out2"
      by (simp add: events_of_def)
    with l show ?thesis by simp
  next
    case (Return u)
    obtain r3 p3 t3 c3 out3 where
      sv: "schema_validate env content p t2 cache = (r3, p3, t3, c3, out3)"
      by (cases "schema_validate env content p t2 cache") auto
    have "events_of (parse env p a cache) = out2 @ out3"
      using pm assms(6) l Return sv by (cases r3) (simp_all add: events_of_def)
    with l schema_validate_props [OF sv] show ?thesis by simp
  qed
qed

text \<open>
  Claim C2, as the code has it. For every parse that reaches the lint stage (an
  existing \<open>qna.yaml\<close> whose text decodes to a non-empty mapping, with resolved
  version \<open>v\<close>), the lint tool is run if and only if \<open>v\<close> is greater than 1: it is
  skipped for version 1 and for every resolved version below 1. When it runs, it is
  the first thing that happens, on the raw text of the file; and when the tool
  answers, every output line that matches the pattern is reported once, as an error
  when its severity is \<open>error\<close> or the strict flag is set and as a warning
  otherwise, before schema validation reports anything.
\<close>

theorem lint_runs_above_version_one:
  assumes "isfile env a" "path_name a = ''qna.yaml''" "read_text env a = Inr content"
    "safe_load env content = Inr (YMap m)" "m \<noteq> []" "resolve_version p m = Inr v"
  shows
    "list_ex is_yamllint_run (events_of (parse env p a cache)) = (1 < int_of v)
     \<and> (1 < int_of v \<longrightarrow>
          (\<exists>rest. events_of (parse env p a cache) = Run (yamllint_cmd p) content # rest))
     \<and> (\<forall>stdout. 1 < int_of v \<and> subprocess_run env (yamllint_cmd p) content = Inr stdout \<longrightarrow>
          (\<exists>t' out rest.
              yamllint env p content ((new_entry env p a)\<lparr>version := v, parsed := m\<rparr>)
                = (Return (), t', Run (yamllint_cmd p) content # out)
            \<and> errors t' = int (length (filter (lint_error p) (lint_findings stdout)))
            \<and> warnings t'
                = int (length (filter (\<lambda>f. \<not> lint_error p f) (lint_findings stdout)))
            \<and> length out = length (lint_findings stdout)
            \<and> events_of (parse env p a cache) = Run (yamllint_cmd p) content # out @ rest))"
proof -
  let ?t1 = "(new_entry env p a)\<lparr>version := v, parsed := m\<rparr>"
  let ?ev = "events_of (parse env p a cache)"
  from parse_mapping_events [OF assms, of cache] obtain rest where
    ev: "?ev = snd (snd (if int_of v > 1 then yamllint env p content ?t1
                         else (Return (), ?t1, []))) @ rest"
    and nr: "\<forall>e \<in> set rest. \<not> is_yamllint_run e"
    by blast
  have skip: "\<not> list_ex is_yamllint_run ?ev" if "\<not> 1 < int_of v"
    using that ev nr by (simp add: list_ex_iff)
  have run: "\<exists>rest'. ?ev = Run (yamllint_cmd p) content # rest'" if "1 < int_of v"
  proof -
    from yamllint_first_event [of env p content ?t1] obtain r1 where
      "snd (snd (yamllint env p content ?t1)) = Run (yamllint_cmd p) content # r1"
      by blast
    with ev that show ?thesis by simp
  qed
  have ran: "list_ex is_yamllint_run ?ev" if "1 < int_of v"
    using run [OF that] is_yamllint_run_cmd by auto
  have rep: "\<exists>t' out rest'.
              yamllint env p content ?t1 = (Return (), t', Run (yamllint_cmd p) content # out)
            \<and> errors t' = int (length (filter (lint_error p) (lint_findings stdout)))
            \<and> warnings t'
                = int (length (filter (\<lambda>f. \<not> lint_error p f) (lint_findings stdout)))
            \<and> length out = length (lint_findings stdout)
            \<and> ?ev = Run (yamllint_cmd p) content # out @ rest'"
    if "1 < int_of v \<and> subprocess_run env (yamllint_cmd p) content = Inr stdout" for stdout
  proof -
    from that have v: "1 < int_of v"
      and s: "subprocess_run env (yamllint_cmd p) content = Inr stdout" by simp_all
    from yamllint_reports [OF s, of ?t1] obtain t' out where
      y: "yamllint env p content ?t1 = (Return (), t', Run (yamllint_cmd p) content # out)"
      and c: "errors t' = errors ?t1 + int (length (filter (lint_error p) (lint_findings stdout)))"
        "warnings t' = warnings ?t1
           + int (length (filter (\<lambda>f. \<not> lint_error p f) (lint_findings stdout)))"
        "length out = length (lint_findings stdout)"
      by blast
    from ev v y have "?ev = Run (yamllint_cmd p) content # out @ rest" by simp
    with y c show ?thesis by (auto simp: new_entry_fields)
  qed
  from skip ran have iff: "list_ex is_yamllint_run ?ev = (1 < int_of v)" by blast
  from iff run rep show ?thesis by blast
qed

theorem lint_runs_above_version_one_witness:
  "list_ex is_yamllint_run
     (events_of (parse (env_doc (YMap [(YStr ''version'', YInt 3)])) parser_example
                   qna_path_example []))
   \<and> \<not> list_ex is_yamllint_run
     (events_of (parse (env_doc (YMap [(YStr ''version'', YInt 1)])) parser_example
                   qna_path_example []))"
proof -
  have h: "isfile (env_doc (YMap [(YStr ''version'', YInt n)])) qna_path_example"
    "path_name qna_path_example = ''qna.yaml''"
    "read_text (env_doc (YMap [(YStr ''version'', YInt n)])) qna_path_example = Inr ''text''"
    "safe_load (env_doc (YMap [(YStr ''version'', YInt n)])) ''text''
       = Inr (YMap [(YStr ''version'', YInt n)])"
    "[(YStr ''version'', YInt n)] \<noteq> []"
    "resolve_version parser_example [(YStr ''version'', YInt n)] = Inr (PInt n)" for n
    by (simp_all add: env_doc_def qna_path_example_def path_name_def resolve_version_def
        parser_example_def)
  from lint_runs_above_version_one [OF h, of 3 "[]"]
  have 1: "list_ex is_yamllint_run
     (events_of (parse (env_doc (YMap [(YStr ''version'', YInt 3)])) parser_example
                   qna_path_example []))"
    by simp
  from lint_runs_above_version_one [OF h, of 1 "[]"]
  have 2: "\<not> list_ex is_yamllint_run
     (events_of (parse (env_doc (YMap [(YStr ''version'', YInt 1)])) parser_example
                   qna_path_example []))"
    by simp
  from 1 2 show ?thesis by simp
qed

text \<open>
  The claim as stated fails for a resolved version below 1: a document that says
  \<open>version: 0\<close> resolves to version 0, which is not 1, and the lint tool is not run.
\<close>

theorem lint_skipped_below_one_counterexample:
  "document_of (fst (parse (env_doc (YMap [(YStr ''version'', YInt 0)])) parser_example
                       qna_path_example []))
     = Some ([(YStr ''version'', YInt 0)], PInt 0)
   \<and> \<not> list_ex is_yamllint_run
     (events_of (parse (env_doc (YMap [(YStr ''version'', YInt 0)])) parser_example
                   qna_path_example []))"
  by code_simp

text \<open>
  Version resolution does not cover every value. With \<open>schema_version\<close> below 1, a
  document whose \<open>version\<close> is a list (or null, a mapping, a set, a timestamp) makes
  \<^verbatim>\<open>int(parsed_version)\<close> raise \<^verbatim>\<open>TypeError\<close>, which the handler for
  \<^verbatim>\<open>ValueError\<close> does not catch: parse raises
  \<^verbatim>\<open>TaxonomyReadingException\<close> instead of falling back to version 1.
\<close>

lemma version_list_raises:
  "fst (parse (env_doc (YMap [(YStr ''version'', YSeq [YInt 1])])) parser_example
          qna_path_example [])
     = Raise (TaxonomyReadingException (Some TypeError))
   \<and> fst (parse (env_doc (YMap [(YStr ''version'', YNull)])) parser_example
          qna_path_example [])
     = Raise (TaxonomyReadingException (Some TypeError))"
  by code_simp

text \<open>
  What version resolution does otherwise: a fixed version of at least 1 is used as
  it is; below 1 the document's \<open>version\<close> is used when it is an integer (a boolean
  is one), 1 when the key is absent, the integer a string converts to or 1 when it
  does not convert, and the truncation of a finite float.
\<close>

lemma resolve_version_cases:
  "(1 \<le> schema_version p \<longrightarrow> resolve_version p m = Inr (PInt (schema_version p)))
   \<and> (schema_version p < 1 \<longrightarrow>
        (map_of m (YStr ''version'') = None \<longrightarrow> resolve_version p m = Inr (PInt 1))
      \<and> (\<forall>n. map_of m (YStr ''version'') = Some (YInt n)
              \<longrightarrow> resolve_version p m = Inr (PInt n))
      \<and> (\<forall>b. map_of m (YStr ''version'') = Some (YBool b)
              \<longrightarrow> resolve_version p m = Inr (PBool b))
      \<and> (\<forall>s. map_of m (YStr ''version'') = Some (YStr s)
              \<longrightarrow> resolve_version p m
                    = Inr (PInt (case py_int_str (ustr s) of Some n \<Rightarrow> n | None \<Rightarrow> 1)))
      \<and> (\<forall>r. map_of m (YStr ''version'') = Some (YFloat (Finite r))
              \<longrightarrow> resolve_version p m = Inr (PInt (py_trunc r)))
      \<and> (map_of m (YStr ''version'') = Some (YFloat NaN)
              \<longrightarrow> resolve_version p m = Inr (PInt 1))
      \<and> (map_of m (YStr ''version'') = Some YNull \<longrightarrow> resolve_version p m = Inl TypeError)
      \<and> (\<forall>xs. map_of m (YStr ''version'') = Some (YSeq xs)
              \<longrightarrow> resolve_version p m = Inl TypeError)
      \<and> (\<forall>kv. map_of m (YStr ''version'') = Some (YMap kv)
              \<longrightarrow> resolve_version p m = Inl TypeError)
      \<and> (map_of m (YStr ''version'') = Some (YFloat PosInf)
              \<longrightarrow> resolve_version p m = Inl OverflowError))"
  by (auto simp: resolve_version_def split: option.splits)

lemma resolve_version_spec:
  assumes "schema_version p < 1" "spec_version m = Some v"
  shows "resolve_version p m = Inr v"
proof (cases "map_of m (YStr ''version'')")
  case None
  with assms show ?thesis by (simp add: resolve_version_def spec_version_def)
next
  case (Some x)
  show ?thesis
  proof (cases x)
    case (YFloat f)
    with assms Some show ?thesis
      by (cases f) (simp_all add: resolve_version_def spec_version_def)
  next
    case (YStr s)
    with assms Some show ?thesis
      by (cases "py_int_str (ustr s)") (auto simp: resolve_version_def spec_version_def)
  next
    case (YBytes s)
    with assms Some show ?thesis
      by (cases "py_int_bytes s") (auto simp: resolve_version_def spec_version_def)
  qed (use assms Some in \<open>simp_all add: resolve_version_def spec_version_def\<close>)
qed

text \<open>
  Claim C1, as the code has it. Take an existing \<open>qna.yaml\<close> whose text decodes to a
  mapping, and a parser configured with a schema version below 1. If the mapping is
  empty, parse leaves through the empty-file exit and the entry keeps version 0.
  Otherwise, when the \<open>version\<close> value is an integer (a boolean is one), is absent,
  is a string or bytes, or is a finite or not-a-number float, the resolved version is
  that integer, 1, the integer the text converts to or else 1, the truncated float or
  else 1; and parse goes on to the lint stage and schema validation with that
  version: it raises only if one of those stages raises. (Nothing is said here about
  the other values: null, sequences, mappings, sets, timestamps, infinite floats.)
\<close>

theorem version_resolution:
  assumes "isfile env a" "path_name a = ''qna.yaml''" "read_text env a = Inr content"
    "safe_load env content = Inr (YMap m)" "schema_version p < 1"
  shows
    "(m = [] \<longrightarrow> document_of (fst (parse env p a cache)) = Some ([], PInt 0))
     \<and> (\<forall>v. m \<noteq> [] \<and> spec_version m = Some v \<longrightarrow>
          resolve_version p m = Inr v
        \<and> (\<forall>t. fst (parse env p a cache) = Return t \<longrightarrow> version t = v \<and> parsed t = m)
        \<and> parse env p a cache =
            (case (if int_of v > 1
                   then yamllint env p content ((new_entry env p a)\<lparr>version := v, parsed := m\<rparr>)
                   else (Return (), (new_entry env p a)\<lparr>version := v, parsed := m\<rparr>, [])) of
               (Raise e, t2, out) \<Rightarrow> (Raise (TaxonomyReadingException (Some e)), p, cache, out)
             | (Return u, t2, out) \<Rightarrow>
                 (case schema_validate env content p t2 cache of
                    (Raise e, p', t3, cache', out') \<Rightarrow>
                      (Raise (TaxonomyReadingException (Some e)), p', cache', out @ out')
                  | (Return u', p', t3, cache', out') \<Rightarrow>
                      (Return t3, p', cache', out @ out'))))"
proof -
  have E: "document_of (fst (parse env p a cache)) = Some ([], PInt 0)" if "m = []"
  proof -
    have "\<not> py_truthy (YMap m)" using that by simp
    from parse_empty [OF assms(1-4) this, of p cache] show ?thesis
      by (auto simp: new_entry_fields)
  qed
  have N: "resolve_version p m = Inr v
        \<and> (\<forall>t. fst (parse env p a cache) = Return t \<longrightarrow> version t = v \<and> parsed t = m)
        \<and> parse env p a cache =
            (case (if int_of v > 1
                   then yamllint env p content ((new_entry env p a)\<lparr>version := v, parsed := m\<rparr>)
                   else (Return (), (new_entry env p a)\<lparr>version := v, parsed := m\<rparr>, [])) of
               (Raise e, t2, out) \<Rightarrow> (Raise (TaxonomyReadingException (Some e)), p, cache, out)
             | (Return u, t2, out) \<Rightarrow>
                 (case schema_validate env content p t2 cache of
                    (Raise e, p', t3, cache', out') \<Rightarrow>
                      (Raise (TaxonomyReadingException (Some e)), p', cache', out @ out')
                  | (Return u', p', t3, cache', out') \<Rightarrow>
                      (Return t3, p', cache', out @ out')))"
    if h: "m \<noteq> [] \<and> spec_version m = Some v" for v
  proof -
    from h have ne: "m \<noteq> []" and sv: "spec_version m = Some v" by simp_all
    have rv: "resolve_version p m = Inr v"
      using assms(5) sv by (rule resolve_version_spec)
    have ret: "version t = v \<and> parsed t = m" if "fst (parse env p a cache) = Return t" for t
    proof -
      from parse_mapping_return [OF assms(1-4) ne that] rv
      have "same_document ((new_entry env p a)\<lparr>version := v, parsed := m\<rparr>) t" by auto
      then show ?thesis by (simp add: same_document_def)
    qed
    from parse_mapping [OF assms(1-4) ne, of p cache] rv ret show ?thesis by simp
  qed
  from E N show ?thesis by blast
qed

theorem version_resolution_witness:
  "document_of (fst (parse (env_doc (YMap [(YStr ''version'', YStr ''3'')])) parser_example
                       qna_path_example []))
     = Some ([(YStr ''version'', YStr ''3'')], PInt 3)
   \<and> resolve_version parser_example [(YStr ''created_by'', YStr ''someone'')] = Inr (PInt 1)"
proof -
  let ?m = "[(YStr ''version'', YStr ''3'')]"
  let ?m' = "[(YStr ''created_by'', YStr ''someone'')]"
  have h: "isfile (env_doc (YMap d)) qna_path_example" "path_name qna_path_example = ''qna.yaml''"
    "read_text (env_doc (YMap d)) qna_path_example = Inr ''text''"
    "safe_load (env_doc (YMap d)) ''text'' = Inr (YMap d)"
    "schema_version parser_example < 1" for d
    by (simp_all add: env_doc_def qna_path_example_def path_name_def parser_example_def)
  have s: "?m \<noteq> [] \<and> spec_version ?m = Some (PInt 3)"
    by code_simp
  have s': "?m' \<noteq> [] \<and> spec_version ?m' = Some (PInt 1)"
    by code_simp
  have "document_of (fst (parse (env_doc (YMap ?m)) parser_example qna_path_example []))
          \<noteq> None"
    by code_simp
  then have r: "\<exists>t. fst (parse (env_doc (YMap ?m)) parser_example qna_path_example []) = Return t"
    by (cases "fst (parse (env_doc (YMap ?m)) parser_example qna_path_example [])") auto
  from version_resolution [OF h, of ?m "[]"] s
  have "\<forall>t. fst (parse (env_doc (YMap ?m)) parser_example qna_path_example []) = Return t
          \<longrightarrow> version t = PInt 3 \<and> parsed t = ?m"
    by blast
  with r have 1: "document_of (fst (parse (env_doc (YMap ?m)) parser_example
                                     qna_path_example []))
                    = Some (?m, PInt 3)"
    by auto
  from version_resolution [OF h, of ?m' "[]"] s'
  have 2: "resolve_version parser_example ?m' = Inr (PInt 1)" by blast
  from 1 2 show ?thesis by simp
qed

text \<open>
  The claim as stated fails at the empty mapping: its top level is a mapping without
  a \<open>version\<close> key, and the entry's version is 0, not 1.
\<close>

theorem empty_mapping_counterexample:
  "document_of (fst (parse (env_doc (YMap [])) parser_example qna_path_example []))
     = Some ([], PInt 0)"
  by code_simp

subsection \<open>The text of a diagnostic\<close>

lemma format_plain_literal:
  "c \<noteq> CHR ''%'' \<Longrightarrow> format_plain (c # s) as
     = (case format_plain s as of Inl e \<Rightarrow> Inl e | Inr r \<Rightarrow> Inr (c # r))"
  by (cases s) simp_all

lemma format_plain_s:
  "format_plain (CHR ''%'' # CHR ''s'' # s) (a # as)
     = (case format_plain s as of Inl e \<Rightarrow> Inl e | Inr r \<Rightarrow> Inr (a @ r))"
  by simp

lemma format_plain_log_prefix_path:
  "format_plain (''%s:%s:%s [%s] '' @ m) ([rp, l, c, y] @ as)
     = (case format_plain m as of
          Inl e \<Rightarrow> Inl e
        | Inr r \<Rightarrow> Inr (rp @ '':'' @ l @ '':'' @ c @ '' ['' @ y @ ''] '' @ r))"
  by (simp add: format_plain_literal format_plain_s del: format_plain.simps split: sum.splits)

lemma format_plain_log_prefix:
  "format_plain (''%s:%s:%s '' @ m) ([rp, l, c] @ as)
     = (case format_plain m as of
          Inl e \<Rightarrow> Inl e
        | Inr r \<Rightarrow> Inr (rp @ '':'' @ l @ '':'' @ c @ '' '' @ r))"
  by (simp add: format_plain_literal format_plain_s del: format_plain.simps split: sum.splits)

lemma format_plain_no_percent:
  "CHR ''%'' \<notin> set m \<Longrightarrow> format_plain m [] = Inr m"
proof (induction m)
  case Nil
  show ?case by simp
next
  case (Cons c m)
  then have "c \<noteq> CHR ''%''" "format_plain m [] = Inr m" by auto
  then show ?case by (simp add: format_plain_literal del: format_plain.simps)
qed

lemma plain_format_literal: "c \<noteq> CHR ''%'' \<Longrightarrow> plain_format (c # s) = plain_format s"
  by (cases s) simp_all

lemma plain_format_log_prefix_path:
  "plain_format (''%s:%s:%s [%s] '' @ m) = plain_format m"
  by (cases m) simp_all

lemma plain_format_log_prefix:
  "plain_format (''%s:%s:%s '' @ m) = plain_format m"
  by (cases m) simp_all

lemma plain_format_no_percent: "CHR ''%'' \<notin> set m \<Longrightarrow> plain_format m"
  by (induction m rule: plain_format.induct) auto

lemma py_str_obj_lc: "py_str ps (obj_lc l) = str_lc l"
  by (cases l) simp_all

lemma py_format_log_prefix_path:
  assumes "plain_format m"
  shows "py_format ps (''%s:%s:%s [%s] '' @ m) ([OPath rp, obj_lc l, obj_lc c, OStr y] @ a)
           = (case format_plain m (map (py_str ps) a) of
                Inl e \<Rightarrow> Inl e
              | Inr r \<Rightarrow> Inr (path_str rp @ '':'' @ str_lc l @ '':'' @ str_lc c
                                  @ '' ['' @ y @ ''] '' @ r))"
proof -
  have "py_format ps (''%s:%s:%s [%s] '' @ m) ([OPath rp, obj_lc l, obj_lc c, OStr y] @ a)
          = format_plain (''%s:%s:%s [%s] '' @ m)
              ([path_str rp, str_lc l, str_lc c, y] @ map (py_str ps) a)"
    unfolding py_format_def using assms
    by (simp only: plain_format_log_prefix_path if_True map_append list.map py_str.simps
        py_str_obj_lc)
  then show ?thesis by (simp only: format_plain_log_prefix_path)
qed

lemma py_format_log_prefix:
  assumes "plain_format m"
  shows "py_format ps (''%s:%s:%s '' @ m) ([OPath rp, obj_lc l, obj_lc c] @ a)
           = (case format_plain m (map (py_str ps) a) of
                Inl e \<Rightarrow> Inl e
              | Inr r \<Rightarrow> Inr (path_str rp @ '':'' @ str_lc l @ '':'' @ str_lc c @ '' '' @ r))"
proof -
  have "py_format ps (''%s:%s:%s '' @ m) ([OPath rp, obj_lc l, obj_lc c] @ a)
          = format_plain (''%s:%s:%s '' @ m)
              ([path_str rp, str_lc l, str_lc c] @ map (py_str ps) a)"
    unfolding py_format_def using assms
    by (simp only: plain_format_log_prefix if_True map_append list.map py_str.simps
        py_str_obj_lc)
  then show ?thesis by (simp only: format_plain_log_prefix)
qed

lemma emit_text_args:
  assumes "a \<noteq> []" "plain_format m" "format_plain m (map (py_str ps) a) = Inr x"
  shows "\<exists>ev. emit ps ''ERROR'' ''error'' ERROR t m a l c y = Inr ev
           \<and> event_text ps ev
               = Inr (spec_text (message_format t) ERROR (path_str (rel_path t))
                        (str_lc l) (str_lc c) y x)"
proof (cases "message_format t = LOGGING")
  case True
  have 1: "py_format ps (''%s:%s:%s '' @ m) ([OPath (rel_path t), obj_lc l, obj_lc c] @ a)
           = Inr (path_str (rel_path t) @ '':'' @ str_lc l @ '':'' @ str_lc c @ '' '' @ x)"
    by (simp only: py_format_log_prefix [OF assms(2)] assms(3) sum.case)
  have 2: "py_format ps (''%s:%s:%s [%s] '' @ m)
             ([OPath (rel_path t), obj_lc l, obj_lc c, OStr y] @ a)
           = Inr (path_str (rel_path t) @ '':'' @ str_lc l @ '':'' @ str_lc c
                    @ '' ['' @ y @ ''] '' @ x)"
    by (simp only: py_format_log_prefix_path [OF assms(2)] assms(3) sum.case)
  show ?thesis
    using True 1 2
    by (simp add: emit_def Let_def getMessage_def spec_text_def)
next
  case False
  have "py_format ps m a = Inr x"
    using assms(2,3) by (simp add: py_format_def)
  with False assms(1) show ?thesis
    by (cases "message_format t") (simp_all add: emit_def Let_def spec_text_def)
qed

lemma emit_text_noargs:
  assumes "message_format t \<noteq> LOGGING"
  shows "emit ps ''ERROR'' ''error'' ERROR t m [] l c y
           = Inr (Print (spec_text (message_format t) ERROR (path_str (rel_path t))
                           (str_lc l) (str_lc c) y m))"
  using assms by (cases "message_format t") (simp_all add: emit_def Let_def spec_text_def)

lemma emit_text_noargs_logging:
  assumes "message_format t = LOGGING" "plain_format m"
  shows "\<exists>ev. emit ps ''ERROR'' ''error'' ERROR t m [] l c y = Inr ev
           \<and> event_text ps ev
               = (case format_plain m [] of
                    Inl e \<Rightarrow> Inl e
                  | Inr r \<Rightarrow> Inr (spec_text LOGGING ERROR (path_str (rel_path t))
                                      (str_lc l) (str_lc c) y r))"
proof (cases "y = []")
  case True
  with assms(1) py_format_log_prefix [OF assms(2), of ps "rel_path t" l c "[]"] show ?thesis
    by (simp add: emit_def Let_def getMessage_def spec_text_def split: sum.splits)
next
  case False
  with assms(1) py_format_log_prefix_path [OF assms(2), of ps "rel_path t" l c y "[]"]
  show ?thesis
    by (simp add: emit_def Let_def getMessage_def spec_text_def split: sum.splits)
qed

text \<open>
  Claim C5. For every violation whose validator keyword is \<open>minItems\<close>, whatever
  the engine's own message, the entry, the line and the format: the report returns,
  counts one error and emits one diagnostic, whose text is the format's line for the
  message "Value must have at least N items", N being the text of the configured
  minimum (its decimal digits when it is an integer).
\<close>

theorem min_items_message:
  assumes "validator ve = ''minItems''"
  shows "\<exists>ev. report_violation ps t ve line yp
            = (Return (t\<lparr>errors := errors t + 1\<rparr>), t\<lparr>errors := errors t + 1\<rparr>, [ev])
          \<and> event_text ps ev
              = Inr (spec_text (message_format t) ERROR (path_str (rel_path t))
                       (str_lc line) (str_int 1) yp
                       (''Value must have at least '' @ py_str ps (OVal (validator_value ve))
                          @ '' items''))
          \<and> (\<forall>n. validator_value ve = YInt n
                \<longrightarrow> py_str ps (OVal (validator_value ve)) = str_int n)"
proof -
  have f: "format_plain ''Value must have at least %s items''
             (map (py_str ps) [OVal (validator_value ve)])
           = Inr (''Value must have at least '' @ py_str ps (OVal (validator_value ve))
                    @ '' items'')"
    by (simp only: list.map format_min_items)
  from emit_text_args [OF _ plain_min_items f, of t line "LInt 1" yp] obtain ev where
    e: "emit ps ''ERROR'' ''error'' ERROR t ''Value must have at least %s items''
          [OVal (validator_value ve)] line (LInt 1) yp = Inr ev"
    and x: "event_text ps ev
              = Inr (spec_text (message_format t) ERROR (path_str (rel_path t))
                       (str_lc line) (str_lc (LInt 1)) yp
                       (''Value must have at least '' @ py_str ps (OVal (validator_value ve))
                          @ '' items''))"
    by blast
  from error_returns [OF e] assms
  have "report_violation ps t ve line yp
          = (Return (t\<lparr>errors := errors t + 1\<rparr>), t\<lparr>errors := errors t + 1\<rparr>, [ev])"
    by (simp add: report_violation_def)
  with x show ?thesis by auto
qed

theorem min_items_message_witness:
  "map (event_text pystr_example)
     (snd (snd (report_violation pystr_example entry_example violation_example
                               (LStr ''7'') ''.seed_examples'')))
     = [Inr ''ERROR: compositional_skills/x/qna.yaml:7:1 [.seed_examples] Value must have at least 5 items'']"
proof -
  have v: "validator violation_example = ''minItems''"
    by (simp add: violation_example_def)
  have s: "spec_text (message_format entry_example) ERROR (path_str (rel_path entry_example))
             (str_lc (LStr ''7'')) (str_int 1) ''.seed_examples''
             (''Value must have at least ''
                @ py_str pystr_example (OVal (validator_value violation_example)) @ '' items'')
           = ''ERROR: compositional_skills/x/qna.yaml:7:1 [.seed_examples] Value must have at least 5 items''"
    by code_simp
  from min_items_message [OF v, of pystr_example entry_example "LStr ''7''" "''.seed_examples''"]
  obtain ev where
    r: "report_violation pystr_example entry_example violation_example (LStr ''7'')
          ''.seed_examples''
        = (Return (entry_example\<lparr>errors := errors entry_example + 1\<rparr>),
           entry_example\<lparr>errors := errors entry_example + 1\<rparr>, [ev])"
    and x: "event_text pystr_example ev
        = Inr (spec_text (message_format entry_example) ERROR (path_str (rel_path entry_example))
             (str_lc (LStr ''7'')) (str_int 1) ''.seed_examples''
             (''Value must have at least ''
                @ py_str pystr_example (OVal (validator_value violation_example)) @ '' items''))"
    by blast
  from x have "event_text pystr_example ev
        = Inr ''ERROR: compositional_skills/x/qna.yaml:7:1 [.seed_examples] Value must have at least 5 items''"
    by (simp only: s)
  with r show ?thesis by simp
qed

lemma last200_props:
  "length (last200 s) = min 200 (length s)"
  "\<exists>pre. s = pre @ last200 s"
  "length s \<le> 200 \<Longrightarrow> last200 s = s"
proof -
  show "length (last200 s) = min 200 (length s)" by (simp add: last200_def)
  have "s = take (length s - 200) s @ last200 s" by (simp add: last200_def)
  then show "\<exists>pre. s = pre @ last200 s" ..
  show "length s \<le> 200 \<Longrightarrow> last200 s = s" by (simp add: last200_def)
qed

text \<open>
  What the report of any other violation does: one error whose message is the last
  200 characters of the engine's message. On standard output the text is the
  format's line for that message. In the logging format the message is made part of
  the logger's format string, so the record has that text when the message holds no
  \<open>%\<close>; when it holds one, the text is what formatting makes of the message, with
  no argument left for it.
\<close>

lemma other_violation_message:
  assumes "validator ve \<noteq> ''minItems''"
  shows "\<exists>ev. report_violation ps t ve line yp
            = (Return (t\<lparr>errors := errors t + 1\<rparr>), t\<lparr>errors := errors t + 1\<rparr>, [ev])
          \<and> (message_format t \<noteq> LOGGING \<longrightarrow>
                ev = Print (spec_text (message_format t) ERROR (path_str (rel_path t))
                              (str_lc line) (str_int 1) yp (last200 (ve_message ve))))
          \<and> (message_format t = LOGGING \<and> plain_format (last200 (ve_message ve)) \<longrightarrow>
                event_text ps ev
                  = (case format_plain (last200 (ve_message ve)) [] of
                       Inl e \<Rightarrow> Inl e
                     | Inr r \<Rightarrow> Inr (spec_text LOGGING ERROR (path_str (rel_path t))
                                         (str_lc line) (str_int 1) yp r)))
          \<and> (message_format t = LOGGING \<and> CHR ''%'' \<notin> set (ve_message ve) \<longrightarrow>
                event_text ps ev
                  = Inr (spec_text LOGGING ERROR (path_str (rel_path t))
                           (str_lc line) (str_int 1) yp (last200 (ve_message ve))))"
proof -
  let ?m = "last200 (ve_message ve)"
  have np: "plain_format ?m \<and> format_plain ?m [] = Inr ?m"
    if "CHR ''%'' \<notin> set (ve_message ve)"
  proof -
    have "set ?m \<subseteq> set (ve_message ve)" by (simp add: last200_def set_drop_subset)
    with that have "CHR ''%'' \<notin> set ?m" by blast
    then show ?thesis by (simp add: format_plain_no_percent plain_format_no_percent)
  qed
  show ?thesis
  proof (cases "message_format t = LOGGING")
    case False
    from emit_text_noargs [OF False, of ps ?m line "LInt 1" yp]
    have e: "emit ps ''ERROR'' ''error'' ERROR t ?m [] line (LInt 1) yp
               = Inr (Print (spec_text (message_format t) ERROR (path_str (rel_path t))
                               (str_lc line) (str_int 1) yp ?m))"
      by simp
    from error_returns [OF e] assms False show ?thesis
      by (simp add: report_violation_def)
  next
    case True
    obtain ev where e: "emit ps ''ERROR'' ''error'' ERROR t ?m [] line (LInt 1) yp = Inr ev"
      using emit_noargs by blast
    from error_returns [OF e] assms
    have r: "report_violation ps t ve line yp
            = (Return (t\<lparr>errors := errors t + 1\<rparr>), t\<lparr>errors := errors t + 1\<rparr>, [ev])"
      by (simp add: report_violation_def)
    have x: "event_text ps ev
                = (case format_plain ?m [] of
                     Inl e \<Rightarrow> Inl e
                   | Inr r \<Rightarrow> Inr (spec_text LOGGING ERROR (path_str (rel_path t))
                                       (str_lc line) (str_int 1) yp r))"
      if pl: "plain_format ?m"
    proof -
      from emit_text_noargs_logging [OF True pl, of ps line "LInt 1" yp] e
      have "event_text ps ev
                = (case format_plain ?m [] of
                     Inl e \<Rightarrow> Inl e
                   | Inr r \<Rightarrow> Inr (spec_text LOGGING ERROR (path_str (rel_path t))
                                       (str_lc line) (str_lc (LInt 1)) yp r))"
        by auto
      then show ?thesis by (simp split: sum.splits)
    qed
    have "CHR ''%'' \<notin> set (ve_message ve) \<longrightarrow>
                event_text ps ev
                  = Inr (spec_text LOGGING ERROR (path_str (rel_path t))
                           (str_lc line) (str_int 1) yp ?m)"
      using x np by simp
    with r x True show ?thesis by auto
  qed
qed

theorem other_violation_message_witness:
  "snd (snd (report_violation pystr_example entry_example violation_percent (LStr ''7'')
               ''.seed_examples[0].answer''))
     = [Print (''ERROR: compositional_skills/x/qna.yaml:7:1 [.seed_examples[0].answer] ''
               @ ve_message violation_percent)]"
proof -
  have v: "validator violation_percent \<noteq> ''minItems''"
    by (simp add: violation_percent_def)
  have f: "message_format entry_example \<noteq> LOGGING"
    by (simp add: entry_example_def Taxonomy_init_def)
  have s: "spec_text (message_format entry_example) ERROR (path_str (rel_path entry_example))
             (str_lc (LStr ''7'')) (str_int 1) ''.seed_examples[0].answer''
             (last200 (ve_message violation_percent))
           = ''ERROR: compositional_skills/x/qna.yaml:7:1 [.seed_examples[0].answer] ''
               @ ve_message violation_percent"
    by code_simp
  from other_violation_message [OF v, of pystr_example entry_example "LStr ''7''"
      "''.seed_examples[0].answer''"] f
  obtain ev where
    r: "report_violation pystr_example entry_example violation_percent (LStr ''7'')
          ''.seed_examples[0].answer''
        = (Return (entry_example\<lparr>errors := errors entry_example + 1\<rparr>),
           entry_example\<lparr>errors := errors entry_example + 1\<rparr>, [ev])"
    and e: "ev = Print (spec_text (message_format entry_example) ERROR
                          (path_str (rel_path entry_example)) (str_lc (LStr ''7'')) (str_int 1)
                          ''.seed_examples[0].answer'' (last200 (ve_message violation_percent)))"
    by blast
  from e have "ev = Print (''ERROR: compositional_skills/x/qna.yaml:7:1 [.seed_examples[0].answer] ''
               @ ve_message violation_percent)"
    by (simp only: s)
  with r show ?thesis by simp
qed

text \<open>
  Claim C6 fails on the code in the logging format. The engine's message
  \<^verbatim>\<open>'100%' is too long\<close> is shorter than 200 characters; in the standard format it is
  printed as it is, but in the logging format it is appended to the logger's format
  string, and rendering the record (\<^verbatim>\<open>msg % args\<close>) raises \<^verbatim>\<open>TypeError\<close>, the four
  arguments being used up by the prefix: the reported text is not the message.
\<close>

theorem percent_message_in_logging_format:
  "map (event_text pystr_example)
     (snd (snd (report_violation pystr_example (entry_example\<lparr>message_format := LOGGING\<rparr>)
                  violation_percent (LStr ''7'') ''.seed_examples[0].answer'')))
     = [Inl TypeError]
   \<and> map (event_text pystr_example)
     (snd (snd (report_violation pystr_example entry_example
                  violation_percent (LStr ''7'') ''.seed_examples[0].answer'')))
     = [Inr (''ERROR: compositional_skills/x/qna.yaml:7:1 [.seed_examples[0].answer] ''
             @ ve_message violation_percent)]"
  by code_simp

subsection \<open>A schema that cannot be loaded\<close>

lemma anchor_nonempty: "anchor folders a = Some s \<Longrightarrow> s \<noteq> []"
  by (induction a) (auto split: option.splits if_splits)

lemma taxonomy_path_nonempty: "a \<noteq> [] \<Longrightarrow> taxonomy_path folders a \<noteq> []"
  by (auto simp: taxonomy_path_def split: option.splits dest: anchor_nonempty)

lemma named_path_nonempty: "path_name a = ''qna.yaml'' \<Longrightarrow> a \<noteq> []"
  by (auto simp: path_name_def)

lemma load_schema_missing:
  assumes "map_of cache (i, f) = None" "files f = None"
  shows "load_schema files i f cache = (Inl (NoSuchResource f), cache, [ReadText f])"
  using assms by (simp add: load_schema_def)

lemma except_NoSuchResource_reports:
  "\<exists>ev. except_NoSuchResource ps (NoSuchResource f) t
           = (Return (), t\<lparr>errors := errors t + 1\<rparr>, [ev])
         \<and> event_text ps ev
             = Inr (spec_text (message_format t) ERROR (path_str (rel_path t))
                      (str_int 1) (str_int 1) []
                      (''Cannot load schema file '' @ f @ ''. '' @ str_exn ps (NoSuchResource f)))"
proof -
  have f: "format_plain ''Cannot load schema file %s. %s''
             (map (py_str ps) [OStr f, OExc (NoSuchResource f)])
           = Inr (''Cannot load schema file '' @ f @ ''. '' @ str_exn ps (NoSuchResource f))"
    by (simp only: list.map format_cannot_load py_str.simps)
  from emit_text_args [OF _ plain_cannot_load f, of t "LInt 1" "LInt 1" "[]"] obtain ev where
    e: "emit ps ''ERROR'' ''error'' ERROR t ''Cannot load schema file %s. %s''
          [OStr f, OExc (NoSuchResource f)] (LInt 1) (LInt 1) [] = Inr ev"
    and x: "event_text ps ev
             = Inr (spec_text (message_format t) ERROR (path_str (rel_path t))
                      (str_lc (LInt 1)) (str_lc (LInt 1)) []
                      (''Cannot load schema file '' @ f @ ''. '' @ str_exn ps (NoSuchResource f)))"
    by blast
  from error_returns [OF e]
  have "except_NoSuchResource ps (NoSuchResource f) t
           = (Return (), t\<lparr>errors := errors t + 1\<rparr>, [ev])"
    by (simp add: except_NoSuchResource_def)
  with x show ?thesis by auto
qed

lemma schema_validate_missing:
  assumes "path t = first # rest"
    and "f = as_posix (''v'' @ str_pyint (version t)) (schema_name_of p t first @ ''.json'')"
    and "map_of cache (ident p, f) = None" "schema_files env f = None"
  shows "\<exists>ev. schema_validate env content p t cache
            = (Return (), p, t\<lparr>errors := errors t + 1\<rparr>, cache, [ReadText f, ev])
          \<and> event_text (strs env) ev
              = Inr (spec_text (message_format t) ERROR (path_str (rel_path t))
                       (str_int 1) (str_int 1) []
                       (''Cannot load schema file '' @ f @ ''. ''
                          @ str_exn (strs env) (NoSuchResource f)))"
proof -
  have ld: "retrieve (schema_files env) (ident p) (''v'' @ str_pyint (version t))
              (schema_name_of p t first @ ''.json'') cache
            = (Inl (NoSuchResource f), cache, [ReadText f])"
    unfolding retrieve_def
    using load_schema_missing [where cache = cache and i = "ident p" and f = f
        and files = "schema_files env"] assms(2,3,4) by simp
  from except_NoSuchResource_reports [of "strs env" f t] obtain ev where
    x: "except_NoSuchResource (strs env) (NoSuchResource f) t
           = (Return (), t\<lparr>errors := errors t + 1\<rparr>, [ev])"
    and tx: "event_text (strs env) ev
             = Inr (spec_text (message_format t) ERROR (path_str (rel_path t))
                      (str_int 1) (str_int 1) []
                      (''Cannot load schema file '' @ f @ ''. ''
                         @ str_exn (strs env) (NoSuchResource f)))"
    by blast
  have "schema_validate env content p t cache
            = (Return (), p, t\<lparr>errors := errors t + 1\<rparr>, cache, [ReadText f, ev])"
    using ld x by (simp add: schema_validate_def assms(1))
  with tx show ?thesis by blast
qed

text \<open>
  Claim C4. Take a parse that reaches schema validation: an existing \<open>qna.yaml\<close>
  whose text decodes to a non-empty mapping, with resolved version \<open>v\<close>, whose lint
  stage (run only above version 1) returned, leaving the entry \<open>t2\<close> and the events
  \<open>out\<close>. When the selected schema document \<open>f\<close>, which is
  \<open>v<version>/<schema name>.json\<close> for every schema name that is not the root, is
  neither cached nor loadable, schema validation reads that file once, reports
  exactly one error, whose text names the file, and nothing else: no violation is
  looked at. Parse returns the entry, populated with the document and the version,
  with that one error added; the parser and the cache are unchanged.
\<close>

theorem missing_schema_single_error:
  assumes "isfile env a" "path_name a = ''qna.yaml''" "read_text env a = Inr content"
    "safe_load env content = Inr (YMap m)" "m \<noteq> []" "resolve_version p m = Inr v"
    and "(if int_of v > 1
          then yamllint env p content ((new_entry env p a)\<lparr>version := v, parsed := m\<rparr>)
          else (Return (), (new_entry env p a)\<lparr>version := v, parsed := m\<rparr>, []))
         = (Return u, t2, out)"
    and "f = as_posix (''v'' @ str_pyint v)
               (schema_name_of p ((new_entry env p a)\<lparr>version := v, parsed := m\<rparr>)
                  (hd (taxonomy_path (taxonomy_folders p) a))
                @ ''.json'')"
    and "map_of cache (ident p, f) = None" "schema_files env f = None"
  shows "\<exists>ev. schema_validate env content p t2 cache
            = (Return (), p, t2\<lparr>errors := errors t2 + 1\<rparr>, cache, [ReadText f, ev])
          \<and> event_text (strs env) ev
              = Inr (spec_text (message_format t2) ERROR (path_str (rel_path t2))
                       (str_int 1) (str_int 1) []
                       (''Cannot load schema file '' @ f @ ''. ''
                          @ str_exn (strs env) (NoSuchResource f)))
          \<and> parse env p a cache
              = (Return (t2\<lparr>errors := errors t2 + 1\<rparr>), p, cache, out @ [ReadText f, ev])
          \<and> parsed t2 = m \<and> version t2 = v"
proof -
  let ?t1 = "(new_entry env p a)\<lparr>version := v, parsed := m\<rparr>"
  have sd: "same_document ?t1 t2"
    using assms(7)
    by (auto split: if_splits dest: yamllint_same_document simp: same_document_refl)
  have ne: "taxonomy_path (taxonomy_folders p) a \<noteq> []"
    using assms(2) by (intro taxonomy_path_nonempty named_path_nonempty)
  then obtain first rest where fr: "taxonomy_path (taxonomy_folders p) a = first # rest"
    by (cases "taxonomy_path (taxonomy_folders p) a") auto
  have pt: "path t2 = first # rest"
    using sd fr by (simp add: same_document_def new_entry_fields)
  have pv: "parsed t2 = m" "version t2 = v"
    using sd by (simp_all add: same_document_def)
  have sn: "schema_name_of p t2 first = schema_name_of p ?t1 first"
    using pv by (simp add: schema_name_of_def)
  have f2: "f = as_posix (''v'' @ str_pyint (version t2)) (schema_name_of p t2 first @ ''.json'')"
    using assms(8) fr pv sn by simp
  from schema_validate_missing [OF pt f2 assms(9,10), of content] obtain ev where
    sv: "schema_validate env content p t2 cache
            = (Return (), p, t2\<lparr>errors := errors t2 + 1\<rparr>, cache, [ReadText f, ev])"
    and tx: "event_text (strs env) ev
              = Inr (spec_text (message_format t2) ERROR (path_str (rel_path t2))
                       (str_int 1) (str_int 1) []
                       (''Cannot load schema file '' @ f @ ''. ''
                          @ str_exn (strs env) (NoSuchResource f)))"
    by blast
  have "parse env p a cache
          = (Return (t2\<lparr>errors := errors t2 + 1\<rparr>), p, cache, out @ [ReadText f, ev])"
    using parse_mapping [OF assms(1-5), of p cache] assms(6,7) sv by simp
  with sv tx pv show ?thesis by blast
qed

theorem missing_schema_single_error_witness:
  "counts (fst (parse (env_doc (YMap [(YStr ''version'', YInt 0)])) parser_example
                  qna_path_example [])) = Some (1, 0)
   \<and> take 1 (events_of (parse (env_doc (YMap [(YStr ''version'', YInt 0)]))
                              parser_example qna_path_example []))
      = [ReadText ''v0/compositional_skills.json'']
   \<and> length (events_of (parse (env_doc (YMap [(YStr ''version'', YInt 0)]))
                              parser_example qna_path_example [])) = 2"
proof -
  let ?m = "[(YStr ''version'', YInt 0)]"
  let ?env = "env_doc (YMap ?m)"
  let ?t1 = "(new_entry ?env parser_example qna_path_example)\<lparr>version := PInt 0, parsed := ?m\<rparr>"
  have h: "isfile ?env qna_path_example" "path_name qna_path_example = ''qna.yaml''"
    "read_text ?env qna_path_example = Inr ''text''"
    "safe_load ?env ''text'' = Inr (YMap ?m)" "?m \<noteq> []"
    "resolve_version parser_example ?m = Inr (PInt 0)"
    by (simp_all add: env_doc_def qna_path_example_def path_name_def resolve_version_def
        parser_example_def)
  have l: "(if int_of (PInt 0) > 1 then yamllint ?env parser_example ''text'' ?t1
            else (Return (), ?t1, [])) = (Return (), ?t1, [])"
    by simp
  have f: "''v0/compositional_skills.json''
             = as_posix (''v'' @ str_pyint (PInt 0))
                 (schema_name_of parser_example ?t1
                    (hd (taxonomy_path (taxonomy_folders parser_example) qna_path_example))
                  @ ''.json'')"
    by code_simp
  have c: "map_of [] (ident parser_example, ''v0/compositional_skills.json'') = (None :: nat option)"
    "schema_files ?env ''v0/compositional_skills.json'' = None"
    by (simp_all add: env_doc_def)
  from missing_schema_single_error [OF h l f c] obtain ev where
    p: "parse ?env parser_example qna_path_example []
          = (Return (?t1\<lparr>errors := errors ?t1 + 1\<rparr>), parser_example, [],
             [] @ [ReadText ''v0/compositional_skills.json'', ev])"
    by blast
  then show ?thesis
    by (simp add: events_of_def new_entry_fields)
qed

subsection \<open>The schema cache\<close>

lemma map_of_filter_other:
  "k \<noteq> j \<Longrightarrow> map_of (filter (\<lambda>e. fst e \<noteq> j) c) k = map_of c k"
  by (induction c) auto

lemma takeWhile_filter_subset:
  "(\<And>x. \<not> Q x \<Longrightarrow> P x) \<Longrightarrow> set (takeWhile P (filter Q xs)) \<subseteq> set (takeWhile P xs)"
  by (induction xs) auto

lemma takeWhile_take_subset:
  "set (takeWhile P (take n xs)) \<subseteq> set (takeWhile P xs)"
  by (induction xs arbitrary: n) (auto simp: take_Cons split: nat.splits)

lemma map_of_take:
  "length (takeWhile (\<lambda>x. x \<noteq> k) (map fst xs)) < n \<Longrightarrow> map_of xs k = Some r
     \<Longrightarrow> map_of (take n xs) k = Some r"
  by (induction xs arbitrary: n) (auto simp: take_Cons split: nat.splits if_splits)

lemma more_recent_card:
  "distinct (map fst c) \<Longrightarrow> card (more_recent k c) = length (takeWhile (\<lambda>x. x \<noteq> k) (map fst c))"
  unfolding more_recent_def by (intro distinct_card distinct_takeWhile)

lemma map_of_None_key: "map_of c j = None \<Longrightarrow> j \<notin> set (map fst c)"
  by (simp add: map_of_eq_None_iff)

lemma load_schema_distinct:
  assumes "distinct (map fst c)"
  shows "distinct (map fst (fst (snd (load_schema files i f c))))"
proof (cases "map_of c (i, f)")
  case (Some r)
  have "distinct (map fst (filter (\<lambda>e. fst e \<noteq> (i, f)) c))"
    using assms by (simp add: distinct_map_filter)
  moreover have "(i, f) \<notin> fst ` set (filter (\<lambda>e. fst e \<noteq> (i, f)) c)" by auto
  ultimately show ?thesis using Some by (simp add: load_schema_def)
next
  case None
  then have "(i, f) \<notin> set (map fst c)" by (rule map_of_None_key)
  with assms have d: "distinct (map fst (((i, f), r) # c))" for r by simp
  show ?thesis
  proof (cases "files f")
    case None
    with \<open>map_of c (i, f) = None\<close> assms show ?thesis by (simp add: load_schema_def)
  next
    case (Some r)
    have "distinct (map fst (take lru_maxsize (((i, f), r) # c)))"
      unfolding take_map [symmetric] using d [of r] by (rule distinct_take)
    then show ?thesis
      using Some \<open>map_of c (i, f) = None\<close> by (simp add: load_schema_def)
  qed
qed

lemma loads_distinct:
  "distinct (map fst c) \<Longrightarrow> distinct (map fst (fst (loads reqs c)))"
proof (induction reqs arbitrary: c)
  case Nil
  then show ?case by simp
next
  case (Cons q reqs)
  obtain files i f where q: "q = (files, i, f)" by (cases q) auto
  obtain r c' out where l: "load_schema files i f c = (r, c', out)"
    by (cases "load_schema files i f c") auto
  have "distinct (map fst c')"
    using load_schema_distinct [OF Cons.prems, of files i f] l by simp
  from Cons.IH [OF this] have "distinct (map fst (fst (loads reqs c')))" .
  moreover obtain c'' out' where "loads reqs c' = (c'', out')"
    by (cases "loads reqs c'") auto
  ultimately show ?case using q l by simp
qed

lemma load_schema_hit:
  "map_of c (i, f) = Some r
     \<Longrightarrow> load_schema files i f c
           = (Inr r, ((i, f), r) # filter (\<lambda>e. fst e \<noteq> (i, f)) c, [])"
  by (simp add: load_schema_def)

lemma load_schema_success:
  assumes "load_schema files i f c = (Inr r, c', out)"
  shows "map_of c' (i, f) = Some r \<and> more_recent (i, f) c' = {}"
proof (cases "map_of c (i, f)")
  case (Some r')
  with assms show ?thesis by (auto simp: load_schema_def more_recent_def)
next
  case None
  with assms show ?thesis
    by (auto simp: load_schema_def more_recent_def lru_maxsize_def split: option.splits)
qed

lemma load_schema_other:
  assumes d: "distinct (map fst c)" and k: "map_of c k = Some r" and jk: "(i, f) \<noteq> k"
    and cd: "card (insert (i, f) (more_recent k c)) < lru_maxsize"
  shows "map_of (fst (snd (load_schema files i f c))) k = Some r
         \<and> more_recent k (fst (snd (load_schema files i f c))) \<subseteq> insert (i, f) (more_recent k c)"
proof (cases "map_of c (i, f)")
  case (Some rj)
  let ?c' = "((i, f), rj) # filter (\<lambda>e. fst e \<noteq> (i, f)) c"
  have c': "fst (snd (load_schema files i f c)) = ?c'"
    using Some by (simp add: load_schema_def)
  have m: "map_of ?c' k = Some r"
    using jk k by (simp add: map_of_filter_other)
  have fm: "map fst (filter (\<lambda>e. fst e \<noteq> (i, f)) c) = filter (\<lambda>x. x \<noteq> (i, f)) (map fst c)"
    by (simp add: filter_map comp_def)
  have "set (takeWhile (\<lambda>x. x \<noteq> k) (filter (\<lambda>x. x \<noteq> (i, f)) (map fst c)))
          \<subseteq> set (takeWhile (\<lambda>x. x \<noteq> k) (map fst c))"
    using jk by (intro takeWhile_filter_subset) auto
  then have "more_recent k ?c' \<subseteq> insert (i, f) (more_recent k c)"
    using jk unfolding more_recent_def by (simp add: fm) blast
  with c' m show ?thesis by simp
next
  case None
  show ?thesis
  proof (cases "files f")
    case None
    with \<open>map_of c (i, f) = None\<close> k show ?thesis
      by (auto simp: load_schema_def)
  next
    case (Some rj)
    let ?c' = "take lru_maxsize (((i, f), rj) # c)"
    have c': "fst (snd (load_schema files i f c)) = ?c'"
      using Some None by (simp add: load_schema_def)
    have nin: "(i, f) \<notin> more_recent k c"
      using map_of_None_key [OF None] by (auto simp: more_recent_def dest: set_takeWhileD)
    have fin: "finite (more_recent k c)" by (simp add: more_recent_def)
    have "card (insert (i, f) (more_recent k c)) = Suc (card (more_recent k c))"
      using nin fin by simp
    with cd more_recent_card [OF d, of k]
    have len: "Suc (length (takeWhile (\<lambda>x. x \<noteq> k) (map fst c))) < lru_maxsize" by simp
    have "length (takeWhile (\<lambda>x. x \<noteq> k) (map fst (((i, f), rj) # c))) < lru_maxsize"
      using jk len by simp
    moreover have "map_of (((i, f), rj) # c) k = Some r" using jk k by simp
    ultimately have m: "map_of ?c' k = Some r" by (rule map_of_take)
    have "set (takeWhile (\<lambda>x. x \<noteq> k) (take lru_maxsize (map fst (((i, f), rj) # c))))
            \<subseteq> set (takeWhile (\<lambda>x. x \<noteq> k) (map fst (((i, f), rj) # c)))"
      by (rule takeWhile_take_subset)
    moreover have "set (takeWhile (\<lambda>x. x \<noteq> k) (map fst (((i, f), rj) # c)))
            = insert (i, f) (more_recent k c)"
      using jk by (simp add: more_recent_def)
    ultimately have "more_recent k ?c' \<subseteq> insert (i, f) (more_recent k c)"
      unfolding more_recent_def take_map [symmetric] by simp
    with c' m show ?thesis by simp
  qed
qed

lemma more_recent_finite: "finite (more_recent k c)"
  by (simp add: more_recent_def)

lemma lru_retains:
  assumes "distinct (map fst c)" "map_of c k = Some r"
    and "card (more_recent k c \<union> (set (map req_key reqs) - {k})) < lru_maxsize"
  shows "map_of (fst (loads reqs c)) k = Some r"
  using assms
proof (induction reqs arbitrary: c)
  case Nil
  then show ?case by simp
next
  case (Cons q reqs)
  obtain files i f where q: "q = (files, i, f)" by (cases q) auto
  let ?S = "more_recent k c \<union> (set (map req_key (q # reqs)) - {k})"
  have finS: "finite ?S" by (simp add: more_recent_finite)
  obtain res c' out where l: "load_schema files i f c = (res, c', out)"
    by (cases "load_schema files i f c") auto
  obtain c'' out' where ls: "loads reqs c' = (c'', out')"
    by (cases "loads reqs c'") auto
  have d': "distinct (map fst c')"
    using load_schema_distinct [OF Cons.prems(1), of files i f] l by simp
  have step: "map_of c' k = Some r
                \<and> more_recent k c' \<union> (set (map req_key reqs) - {k}) \<subseteq> ?S"
  proof (cases "(i, f) = k")
    case True
    with Cons.prems(2) have "map_of c (i, f) = Some r" by simp
    from load_schema_hit [OF this, of files] l
    have "c' = ((i, f), r) # filter (\<lambda>e. fst e \<noteq> (i, f)) c" by simp
    with True show ?thesis by (auto simp: more_recent_def)
  next
    case False
    have "insert (i, f) (more_recent k c) \<subseteq> ?S"
      using False by (auto simp: q req_key_def)
    then have "card (insert (i, f) (more_recent k c)) \<le> card ?S"
      using finS by (rule card_mono [rotated])
    with Cons.prems(3) have "card (insert (i, f) (more_recent k c)) < lru_maxsize" by simp
    from load_schema_other [OF Cons.prems(1,2) False this, of files] l
    have "map_of c' k = Some r" "more_recent k c' \<subseteq> insert (i, f) (more_recent k c)"
      by simp_all
    with False show ?thesis by (auto simp: q req_key_def)
  qed
  then have "card (more_recent k c' \<union> (set (map req_key reqs) - {k})) \<le> card ?S"
    using finS by (intro card_mono) auto
  with Cons.prems(3) have "card (more_recent k c' \<union> (set (map req_key reqs) - {k})) < lru_maxsize"
    by simp
  from Cons.IH [OF d' _ this] step have "map_of (fst (loads reqs c')) k = Some r" by simp
  with q l ls show ?case by simp
qed

lemma take_append_take: "take n (xs @ take n ys) = take n (xs @ ys)"
  by (simp add: min_def)

lemma loads_fresh:
  assumes "distinct (map req_key reqs)"
    and "\<forall>q \<in> set reqs. req_key q \<notin> fst ` set c"
    and "\<forall>q \<in> set reqs. fst q (snd (snd q)) \<noteq> None"
    and "length c \<le> lru_maxsize"
  shows "fst (loads reqs c)
           = take lru_maxsize
               (rev (map (\<lambda>q. (req_key q, the (fst q (snd (snd q))))) reqs) @ c)"
  using assms
proof (induction reqs arbitrary: c)
  case Nil
  then show ?case by simp
next
  case (Cons q reqs)
  obtain files i f where q: "q = (files, i, f)" by (cases q) auto
  let ?e = "\<lambda>q. (req_key q, the (fst q (snd (snd q))))"
  from Cons.prems(2) have "(i, f) \<notin> fst ` set c" by (simp add: q req_key_def)
  then have miss: "map_of c (i, f) = None" by (simp add: map_of_eq_None_iff)
  from Cons.prems(3) obtain r where r: "files f = Some r" by (auto simp: q)
  let ?c' = "take lru_maxsize (((i, f), r) # c)"
  have l: "load_schema files i f c = (Inr r, ?c', [ReadText f])"
    using miss r by (simp add: load_schema_def)
  obtain c'' out' where ls: "loads reqs ?c' = (c'', out')"
    by (cases "loads reqs ?c'") auto
  have a: "distinct (map req_key reqs)" using Cons.prems(1) by simp
  have b: "\<forall>q' \<in> set reqs. req_key q' \<notin> fst ` set ?c'"
  proof
    fix q' assume m: "q' \<in> set reqs"
    then have "req_key q' \<in> set (map req_key reqs)" by simp
    moreover have "req_key q \<notin> set (map req_key reqs)" using Cons.prems(1) by simp
    ultimately have "req_key q' \<noteq> req_key q" by metis
    then have "req_key q' \<noteq> (i, f)" by (simp add: q req_key_def)
    moreover have "req_key q' \<notin> fst ` set c" using Cons.prems(2) m by simp
    moreover note \<open>req_key q' \<noteq> (i, f)\<close>
    moreover have "set ?c' \<subseteq> insert ((i, f), r) (set c)"
      using set_take_subset [of lru_maxsize "((i, f), r) # c"] by simp
    ultimately show "req_key q' \<notin> fst ` set ?c'" by auto
  qed
  have c: "\<forall>q' \<in> set reqs. fst q' (snd (snd q')) \<noteq> None" using Cons.prems(3) by simp
  have d: "length ?c' \<le> lru_maxsize" by simp
  from Cons.IH [OF a b c d]
  have "fst (loads reqs ?c') = take lru_maxsize (rev (map ?e reqs) @ ?c')" .
  also have "\<dots> = take lru_maxsize (rev (map ?e reqs) @ ((i, f), r) # c)"
    by (rule take_append_take)
  also have "\<dots> = take lru_maxsize (rev (map ?e (q # reqs)) @ c)"
    using r by (simp add: q req_key_def)
  finally show ?case using q l ls by simp
qed

lemma other_loads_evict:
  "map_of (fst (loads other_loads [((0, ''v1/knowledge.json''), r)])) (0, ''v1/knowledge.json'')
     = None"
proof -
  let ?k = "(0 :: nat, ''v1/knowledge.json'')"
  let ?e = "\<lambda>q :: (string \<Rightarrow> nat option) \<times> nat \<times> string. (req_key q, the (fst q (snd (snd q))))"
  have keys: "map req_key other_loads = map (\<lambda>n. (0, replicate n CHR ''x'')) [1..<129]"
    by (simp add: other_loads_def req_key_def comp_def)
  have inj: "inj_on (\<lambda>n. (0 :: nat, replicate n CHR ''x'')) (set [1..<129])"
    by (rule inj_onI) (auto dest: arg_cong [where f = length])
  have a: "distinct (map req_key other_loads)"
    unfolding keys using inj by (simp add: distinct_map)
  have nk: "?k \<notin> set (map req_key other_loads)"
  proof
    assume "?k \<in> set (map req_key other_loads)"
    then obtain n where "''v1/knowledge.json'' = replicate n CHR ''x''"
      unfolding keys by auto
    then have "CHR ''v'' \<in> set (replicate n CHR ''x'')"
      by (metis list.set_intros(1))
    then show False by simp
  qed
  have b: "\<forall>q \<in> set other_loads. req_key q \<notin> fst ` set [(?k, r)]"
  proof
    fix q assume "q \<in> set other_loads"
    then have "req_key q \<in> set (map req_key other_loads)" by simp
    with nk have "req_key q \<noteq> ?k" by metis
    then show "req_key q \<notin> fst ` set [(?k, r)]" by simp
  qed
  have c: "\<forall>q \<in> set other_loads. fst q (snd (snd q)) \<noteq> None"
    by (auto simp: other_loads_def files_all_def)
  have d: "length [(?k, r)] \<le> lru_maxsize" by (simp add: lru_maxsize_def)
  have len: "length (rev (map ?e other_loads)) = lru_maxsize"
    by (simp add: other_loads_def lru_maxsize_def)
  from loads_fresh [OF a b c d]
  have "fst (loads other_loads [(?k, r)]) = take lru_maxsize (rev (map ?e other_loads) @ [(?k, r)])" .
  also have "\<dots> = rev (map ?e other_loads)" using len by simp
  finally have "fst ` set (fst (loads other_loads [(?k, r)])) = set (map req_key other_loads)"
    by (simp add: image_image)
  with nk show ?thesis by (simp add: map_of_eq_None_iff)
qed

text \<open>
  Claim C7, as the code has it. The cache is the least-recently-used cache of
  \<^verbatim>\<open>functools.lru_cache\<close> with its default size of 128, keyed on the parser and
  the path. After a load of a document has succeeded (reading the file at most
  once), every later load of the same document by the same parser returns the same
  resource without reading the file, whatever the file holds by then, provided that
  fewer than 128 different other keys were loaded in between. A load that fails
  caches nothing: it reads the file again each time it is repeated.
\<close>

theorem cached_schema_retained:
  assumes "load_schema files i f (fst (loads pre [])) = (Inr r, c1, out1)"
    and "card (set (map req_key mid) - {(i, f)}) < lru_maxsize"
  shows "load_schema files' i f (fst (loads mid c1))
           = (Inr r, ((i, f), r) # filter (\<lambda>e. fst e \<noteq> (i, f)) (fst (loads mid c1)), [])
         \<and> (out1 = [] \<or> out1 = [ReadText f])
         \<and> (\<forall>g j h c. map_of c (j, h) = None \<and> g h = None
               \<longrightarrow> load_schema g j h c = (Inl (NoSuchResource h), c, [ReadText h]))"
proof -
  let ?c0 = "fst (loads pre [])"
  have d0: "distinct (map fst ?c0)" by (rule loads_distinct) simp
  have d1: "distinct (map fst c1)"
    using load_schema_distinct [OF d0, of files i f] assms(1) by simp
  from load_schema_success [OF assms(1)]
  have m1: "map_of c1 (i, f) = Some r" and b1: "more_recent (i, f) c1 = {}" by simp_all
  have "card (more_recent (i, f) c1 \<union> (set (map req_key mid) - {(i, f)})) < lru_maxsize"
    using assms(2) b1 by simp
  from lru_retains [OF d1 m1 this]
  have "map_of (fst (loads mid c1)) (i, f) = Some r" .
  from load_schema_hit [OF this, of files']
  have hit: "load_schema files' i f (fst (loads mid c1))
           = (Inr r, ((i, f), r) # filter (\<lambda>e. fst e \<noteq> (i, f)) (fst (loads mid c1)), [])" .
  have rd: "out1 = [] \<or> out1 = [ReadText f]"
    using assms(1) by (auto simp: load_schema_def split: option.splits)
  have fl: "\<forall>g j h c. map_of c (j, h) = None \<and> g h = None
               \<longrightarrow> load_schema g j h c = (Inl (NoSuchResource h), c, [ReadText h])"
    by (simp add: load_schema_def)
  from hit rd fl show ?thesis by blast
qed

theorem cached_schema_retained_witness:
  "load_schema files_none 0 ''v1/knowledge.json''
     (fst (loads [(files_all, 0, ''v1/version.json'')]
             [((0, ''v1/knowledge.json''), 17)]))
   = (Inr 17,
      [((0, ''v1/knowledge.json''), 17), ((0, ''v1/version.json''), 15)],
      [])"
proof -
  have 1: "load_schema files_all 0 ''v1/knowledge.json'' (fst (loads [] []))
             = (Inr 17, [((0, ''v1/knowledge.json''), 17)], [ReadText ''v1/knowledge.json''])"
    by (simp add: load_schema_def files_all_def lru_maxsize_def)
  have "set (map req_key [(files_all, 0 :: nat, ''v1/version.json'')])
          - {(0, ''v1/knowledge.json'')} = {(0, ''v1/version.json'')}"
    by (auto simp: req_key_def)
  then have 2: "card (set (map req_key [(files_all, 0 :: nat, ''v1/version.json'')])
                  - {(0, ''v1/knowledge.json'')}) < lru_maxsize"
    by (simp add: lru_maxsize_def)
  have 3: "fst (loads [(files_all, 0, ''v1/version.json'')] [((0, ''v1/knowledge.json''), 17)])
             = [((0, ''v1/version.json''), 15), ((0, ''v1/knowledge.json''), 17)]"
    by (simp add: load_schema_def files_all_def lru_maxsize_def)
  have 4: "filter (\<lambda>e. fst e \<noteq> (0 :: nat, ''v1/knowledge.json''))
             [((0, ''v1/version.json''), 15 :: nat), ((0, ''v1/knowledge.json''), 17)]
           = [((0, ''v1/version.json''), 15)]"
    by simp
  from cached_schema_retained [OF 1 2, of files_none, unfolded 3]
  have "load_schema files_none 0 ''v1/knowledge.json''
          [((0, ''v1/version.json''), 15), ((0, ''v1/knowledge.json''), 17)]
        = (Inr 17, ((0, ''v1/knowledge.json''), 17)
             # filter (\<lambda>e. fst e \<noteq> (0, ''v1/knowledge.json''))
                 [((0, ''v1/version.json''), 15), ((0, ''v1/knowledge.json''), 17)], [])"
    by (rule conjunct1)
  then show ?thesis unfolding 3 4 .
qed

text \<open>
  The claim as stated fails: after one parser has loaded 128 other documents, a
  second load of the first document reads its file again.
\<close>

theorem eviction_counterexample:
  "snd (snd (load_schema files_all 0 ''v1/knowledge.json''
               (fst (loads other_loads
                       (fst (snd (load_schema files_all 0 ''v1/knowledge.json'' [])))))))
     = [ReadText ''v1/knowledge.json'']"
proof -
  have 1: "fst (snd (load_schema files_all 0 ''v1/knowledge.json'' []))
             = [((0, ''v1/knowledge.json''), 17)]"
    by (simp add: load_schema_def files_all_def lru_maxsize_def)
  have m: "map_of (fst (loads other_loads [((0, ''v1/knowledge.json''), 17)]))
          (0, ''v1/knowledge.json'') = None"
    by (rule other_loads_evict)
  have "snd (snd (load_schema files_all 0 ''v1/knowledge.json'' c)) = [ReadText ''v1/knowledge.json'']"
    if "map_of c (0, ''v1/knowledge.json'') = None" for c :: "nat lru"
    using that by (simp add: load_schema_def files_all_def)
  from this [OF m] show ?thesis by (simp only: 1)
qed

end
